theory Spec2Isabelle
  imports Main
begin

section \<open>The JSON store (class Storage)\<close>

text \<open>
  The store keeps one JSON document in memory (\<open>this.data\<close>) and rewrites the whole
  file after every mutation. Channels and downloads are arrays, videos is an object
  keyed by the external video id. A download's \<open>status\<close> is one of the four strings
  \<open>'pending'\<close>, \<open>'downloading'\<close>, \<open>'completed'\<close>, \<open>'failed'\<close>. A field that is
  \<open>null\<close>, \<open>undefined\<close> or absent is \<open>None\<close>.

  Wall-clock readings (\<open>new Date().toISOString()\<close>, \<open>Date.now()\<close>) and
  \<open>Math.random()\<close> are arguments of the operation that reads them. File system calls
  are taken to succeed.
\<close>

datatype dl_status = Pending | Downloading | Completed | Failed

record channel =
  ch_id :: string
  ch_url :: string
  ch_name :: "string option"
  ch_enabled :: bool
  ch_lastCheckAt :: "string option"
  ch_createdAt :: string

record video =
  v_id :: "string option"
  v_channelId :: string
  v_title :: string
  v_url :: string
  v_thumbnail :: string
  v_duration :: "nat option"
  v_uploadDate :: "string option"
  v_discoveredAt :: string

text \<open>What the channel listing returns for one video (\<open>fetchChannelVideosBasic\<close>).\<close>

record videoData =
  vd_id :: string
  vd_title :: string
  vd_url :: string
  vd_thumbnail :: string
  vd_duration :: "nat option"
  vd_upload_date :: "string option"

record download =
  dl_id :: string
  dl_videoId :: string
  dl_status :: dl_status
  dl_quality :: string
  dl_filePath :: "string option"
  dl_retryCount :: nat
  dl_errorMessage :: "string option"
  dl_startedAt :: "string option"
  dl_completedAt :: "string option"

record store_data =
  channels :: "channel list"
  videos :: "(string \<times> video) list"
  downloads :: "download list"

text \<open>
  The file at \<open>filePath\<close>: absent, present with text that \<open>JSON.parse\<close> rejects, or
  present with a document. \<open>JSON.stringify\<close> followed by \<open>JSON.parse\<close> gives back
  the document it was given (every field of the records above is a JSON value), so a
  written file is modelled by the document itself. \<open>st_backups\<close> are the files that
  \<open>init\<close> renamed aside.
\<close>

datatype disk_file = Unparseable | Doc store_data

record storage =
  st_data :: store_data
  st_disk :: "disk_file option"
  st_backups :: "disk_file list"

definition empty_data :: store_data where
  "empty_data = \<lparr>channels = [], videos = [], downloads = []\<rparr>"

text \<open>The constructor: \<open>new Storage(filePath)\<close> over whatever is on disk.\<close>

definition new_Storage :: "disk_file option \<Rightarrow> disk_file list \<Rightarrow> storage" where
  "new_Storage disk backups = \<lparr>st_data = empty_data, st_disk = disk, st_backups = backups\<rparr>"

text \<open>\<open>save\<close>: write the snapshot to the temp file, rename it over the store file.\<close>

definition save :: "storage \<Rightarrow> storage" where
  "save s = s\<lparr>st_disk := Some (Doc (st_data s))\<rparr>"

text \<open>JavaScript truthiness of an optional string: \<open>null\<close> and \<open>''\<close> are falsy.\<close>

definition truthy :: "string option \<Rightarrow> bool" where
  "truthy x = (case x of None \<Rightarrow> False | Some t \<Rightarrow> t \<noteq> [])"

text \<open>\<open>x || null\<close> on an optional string.\<close>

definition or_null :: "string option \<Rightarrow> string option" where
  "or_null x = (if truthy x then x else None)"

text \<open>
  \<open>arr.find(p)\<close> returns the first element satisfying \<open>p\<close>, and the caller then
  mutates that object in place: \<open>update_first p f\<close> is the array after the mutation
  \<open>f\<close> of the first match.
\<close>

fun update_first :: "('a \<Rightarrow> bool) \<Rightarrow> ('a \<Rightarrow> 'a) \<Rightarrow> 'a list \<Rightarrow> 'a list" where
  "update_first p f [] = []"
| "update_first p f (x # xs) = (if p x then f x # xs else x # update_first p f xs)"

subsection \<open>init\<close>

definition reset_download :: "download \<Rightarrow> download" where
  "reset_download dl = (if dl_status dl = Downloading then dl\<lparr>dl_status := Pending\<rparr> else dl)"

definition migrate_video :: "string \<times> video \<Rightarrow> string \<times> video" where
  "migrate_video kv = (if truthy (v_id (snd kv)) then kv else (fst kv, (snd kv)\<lparr>v_id := Some (fst kv)\<rparr>))"

text \<open>The body of the \<open>try\<close> after the document is in memory: the reset of
  \<open>'downloading'\<close> tasks and the id migration, each saved when it changed something.\<close>

definition init_normalise :: "storage \<Rightarrow> storage" where
  "init_normalise s =
     (let d = st_data s;
          resetCount = length (filter (\<lambda>dl. dl_status dl = Downloading) (downloads d));
          s1 = s\<lparr>st_data := d\<lparr>downloads := map reset_download (downloads d)\<rparr>\<rparr>;
          s2 = (if resetCount > 0 then save s1 else s1);
          d2 = st_data s2;
          migrated = list_ex (\<lambda>kv. \<not> truthy (v_id (snd kv))) (videos d2);
          s3 = s2\<lparr>st_data := d2\<lparr>videos := map migrate_video (videos d2)\<rparr>\<rparr>
      in if migrated then save s3 else s3)"

text \<open>The \<open>catch\<close>: the unreadable file is renamed to a backup and the data in memory
  is written out.\<close>

definition init_recover :: "storage \<Rightarrow> storage" where
  "init_recover s =
     (case st_disk s of
        Some f \<Rightarrow> save (s\<lparr>st_disk := None, st_backups := st_backups s @ [f]\<rparr>)
      | None \<Rightarrow> save s)"

definition init :: "storage \<Rightarrow> storage" where
  "init s =
     (case st_disk s of
        Some Unparseable \<Rightarrow> init_recover s
      | Some (Doc d) \<Rightarrow> init_normalise (s\<lparr>st_data := d\<rparr>)
      | None \<Rightarrow> init_normalise (save s))"

subsection \<open>Channels\<close>

definition addChannel :: "storage \<Rightarrow> string \<Rightarrow> string option \<Rightarrow> string \<Rightarrow> string \<Rightarrow> string \<times> storage" where
  "addChannel s u nm stamp now =
     (case find (\<lambda>ch. ch_url ch = u) (channels (st_data s)) of
        Some existing \<Rightarrow> (ch_id existing, s)
      | None \<Rightarrow>
          (let cid = ''ch_'' @ stamp;
               ch = \<lparr>ch_id = cid, ch_url = u, ch_name = or_null nm, ch_enabled = True,
                     ch_lastCheckAt = None, ch_createdAt = now\<rparr>;
               d = st_data s
           in (cid, save (s\<lparr>st_data := d\<lparr>channels := channels d @ [ch]\<rparr>\<rparr>))))"

definition getChannels :: "storage \<Rightarrow> bool \<Rightarrow> channel list" where
  "getChannels s enabledOnly =
     (if enabledOnly then filter ch_enabled (channels (st_data s)) else channels (st_data s))"

definition toggleChannel :: "storage \<Rightarrow> string \<Rightarrow> bool \<Rightarrow> storage" where
  "toggleChannel s cid en =
     (case find (\<lambda>ch. ch_id ch = cid) (channels (st_data s)) of
        Some _ \<Rightarrow>
          (let d = st_data s
           in save (s\<lparr>st_data := d\<lparr>channels :=
                 update_first (\<lambda>ch. ch_id ch = cid) (\<lambda>ch. ch\<lparr>ch_enabled := en\<rparr>) (channels d)\<rparr>\<rparr>))
      | None \<Rightarrow> s)"

definition removeChannel :: "storage \<Rightarrow> string \<Rightarrow> storage" where
  "removeChannel s cid =
     (let d = st_data s
      in save (s\<lparr>st_data := d\<lparr>channels := filter (\<lambda>ch. ch_id ch \<noteq> cid) (channels d)\<rparr>\<rparr>))"

definition updateChannelLastCheck :: "storage \<Rightarrow> string \<Rightarrow> string \<Rightarrow> storage" where
  "updateChannelLastCheck s cid now =
     (case find (\<lambda>ch. ch_id ch = cid) (channels (st_data s)) of
        Some _ \<Rightarrow>
          (let d = st_data s
           in save (s\<lparr>st_data := d\<lparr>channels :=
                 update_first (\<lambda>ch. ch_id ch = cid) (\<lambda>ch. ch\<lparr>ch_lastCheckAt := Some now\<rparr>) (channels d)\<rparr>\<rparr>))
      | None \<Rightarrow> s)"

subsection \<open>Videos\<close>

text \<open>
  \<open>this.data.videos\<close> is a plain object, so \<open>this.data.videos[k]\<close> also finds what
  \<open>Object.prototype\<close> provides: for these keys the lookup is truthy although nothing
  was stored.
\<close>

definition object_prototype_keys :: "string list" where
  "object_prototype_keys =
     [''constructor'', ''__proto__'', ''hasOwnProperty'', ''isPrototypeOf'',
      ''propertyIsEnumerable'', ''toLocaleString'', ''toString'', ''valueOf'',
      ''__defineGetter__'', ''__defineSetter__'', ''__lookupGetter__'', ''__lookupSetter__'']"

datatype 'a js_lookup = Own 'a | Inherited | Undefined

definition videos_lookup :: "storage \<Rightarrow> string \<Rightarrow> video js_lookup" where
  "videos_lookup s k =
     (case map_of (videos (st_data s)) k of
        Some v \<Rightarrow> Own v
      | None \<Rightarrow> (if k \<in> set object_prototype_keys then Inherited else Undefined))"

definition videoExists :: "storage \<Rightarrow> string \<Rightarrow> bool" where
  "videoExists s k = (videos_lookup s k \<noteq> Undefined)"

definition getVideo :: "storage \<Rightarrow> string \<Rightarrow> video js_lookup" where
  "getVideo s k = videos_lookup s k"

definition addVideo :: "storage \<Rightarrow> string \<Rightarrow> videoData \<Rightarrow> string \<Rightarrow> bool \<times> storage" where
  "addVideo s channelId vd now =
     (if videos_lookup s (vd_id vd) = Undefined then
        (let v = \<lparr>v_id = Some (vd_id vd), v_channelId = channelId, v_title = vd_title vd,
                  v_url = vd_url vd, v_thumbnail = vd_thumbnail vd,
                  v_duration = (case vd_duration vd of Some 0 \<Rightarrow> None | x \<Rightarrow> x),
                  v_uploadDate = or_null (vd_upload_date vd), v_discoveredAt = now\<rparr>;
             d = st_data s
         in (True, save (s\<lparr>st_data := d\<lparr>videos := videos d @ [(vd_id vd, v)]\<rparr>\<rparr>)))
      else (False, s))"

subsection \<open>Downloads\<close>

definition in_queue :: "string \<Rightarrow> download \<Rightarrow> bool" where
  "in_queue vid dl = (dl_videoId dl = vid \<and> (dl_status dl = Pending \<or> dl_status dl = Downloading))"

definition createDownload :: "storage \<Rightarrow> string \<Rightarrow> string \<Rightarrow> string \<Rightarrow> string \<Rightarrow> string \<times> storage" where
  "createDownload s vid q stamp rnd =
     (case find (in_queue vid) (downloads (st_data s)) of
        Some existing \<Rightarrow> (dl_id existing, s)
      | None \<Rightarrow>
          (let did = ''dl_'' @ stamp @ ''_'' @ rnd;
               dl = \<lparr>dl_id = did, dl_videoId = vid, dl_status = Pending, dl_quality = q,
                     dl_filePath = None, dl_retryCount = 0, dl_errorMessage = None,
                     dl_startedAt = None, dl_completedAt = None\<rparr>;
               d = st_data s
           in (did, save (s\<lparr>st_data := d\<lparr>downloads := downloads d @ [dl]\<rparr>\<rparr>))))"

definition getPendingDownloads :: "storage \<Rightarrow> nat \<Rightarrow> download list" where
  "getPendingDownloads s limit = take limit (filter (\<lambda>dl. dl_status dl = Pending) (downloads (st_data s)))"

text \<open>
  The third argument of \<open>updateDownloadStatus\<close> is merged into the record with
  \<open>Object.assign\<close>. The callers pass \<open>filePath\<close>, \<open>errorMessage\<close> and \<open>completedAt\<close>
  only; a key that is absent from the object is \<open>None\<close> here, a key that is present
  carries the value assigned.
\<close>

record patch =
  p_filePath :: "string option option"
  p_errorMessage :: "string option option"
  p_completedAt :: "string option option"

definition no_patch :: patch where
  "no_patch = \<lparr>p_filePath = None, p_errorMessage = None, p_completedAt = None\<rparr>"

definition assign_patch :: "patch \<Rightarrow> download \<Rightarrow> download" where
  "assign_patch p dl =
     (let d1 = (case p_filePath p of Some x \<Rightarrow> dl\<lparr>dl_filePath := x\<rparr> | None \<Rightarrow> dl);
          d2 = (case p_errorMessage p of Some x \<Rightarrow> d1\<lparr>dl_errorMessage := x\<rparr> | None \<Rightarrow> d1)
      in (case p_completedAt p of Some x \<Rightarrow> d2\<lparr>dl_completedAt := x\<rparr> | None \<Rightarrow> d2))"

definition set_status :: "dl_status \<Rightarrow> patch \<Rightarrow> string \<Rightarrow> download \<Rightarrow> download" where
  "set_status st p now dl =
     (let d1 = assign_patch p (dl\<lparr>dl_status := st\<rparr>);
          d2 = (if st = Downloading \<and> \<not> truthy (dl_startedAt d1) then d1\<lparr>dl_startedAt := Some now\<rparr> else d1)
      in if st = Completed \<or> st = Failed then d2\<lparr>dl_completedAt := Some now\<rparr> else d2)"

definition updateDownloadStatus :: "storage \<Rightarrow> string \<Rightarrow> dl_status \<Rightarrow> patch \<Rightarrow> string \<Rightarrow> storage" where
  "updateDownloadStatus s did st p now =
     (case find (\<lambda>dl. dl_id dl = did) (downloads (st_data s)) of
        Some _ \<Rightarrow>
          (let d = st_data s
           in save (s\<lparr>st_data := d\<lparr>downloads :=
                 update_first (\<lambda>dl. dl_id dl = did) (set_status st p now) (downloads d)\<rparr>\<rparr>))
      | None \<Rightarrow> s)"

definition requeue :: "download \<Rightarrow> download" where
  "requeue dl = dl\<lparr>dl_status := Pending, dl_retryCount := dl_retryCount dl + 1, dl_errorMessage := None\<rparr>"

definition retryFailedDownload :: "storage \<Rightarrow> string \<Rightarrow> bool \<times> storage" where
  "retryFailedDownload s did =
     (case find (\<lambda>dl. dl_id dl = did) (downloads (st_data s)) of
        Some dl \<Rightarrow>
          (if dl_retryCount dl < 2 then
             (let d = st_data s
              in (True, save (s\<lparr>st_data := d\<lparr>downloads :=
                    update_first (\<lambda>dl. dl_id dl = did) requeue (downloads d)\<rparr>\<rparr>)))
           else (False, s))
      | None \<Rightarrow> (False, s))"

section \<open>The download queue (class DownloadQueue)\<close>

text \<open>
  The fields of \<open>config.monitoring\<close> that the queue and the scheduler read.
  \<open>outputFile title\<close> stands for
  \<open>path.join(outputPath || './downloads', _sanitizeFileName(title) + '.mp4')\<close>.
\<close>

record config =
  maxConcurrentDownloads :: nat
  defaultQuality :: string
  outputFile :: "string \<Rightarrow> string"

text \<open>A running \<open>yt-dlp\<close> child process, with what the suspended \<open>_downloadNext\<close>
  that awaits it holds: the download id, the video id and the video's title.\<close>

record proc =
  pr_id :: string
  pr_videoId :: string
  pr_title :: string

text \<open>How a child process ends: exit code 0, or a rejection with its message
  (a nonzero exit code or a spawn error).\<close>

datatype exit_result = Exit0 | ExitError string

text \<open>The running state of one scan pass of the scheduler: the channels still to
  check and the counters of \<open>stats\<close>.\<close>

record scan_stats =
  totalChannels :: nat
  newVideos :: nat
  errors :: nat

record pass_state =
  ps_todo :: "channel list"
  ps_stats :: scan_stats

text \<open>
  The process: the store, the queue's fields (\<open>activeDownloads\<close> is the key list of
  the Map), the child processes alive, the scheduler's \<open>_isChecking\<close> flag and the
  \<open>checkAllChannelsNow\<close> calls that are suspended in a pass.
\<close>

record sys =
  sy_store :: storage
  activeDownloads :: "string list"
  isRunning :: bool
  isStopping :: bool
  procs :: "proc list"
  isChecking :: bool
  passes :: "pass_state list"

definition map_set :: "string \<Rightarrow> string list \<Rightarrow> string list" where
  "map_set k ks = (if k \<in> set ks then ks else ks @ [k])"

definition map_delete :: "string \<Rightarrow> string list \<Rightarrow> string list" where
  "map_delete k ks = filter (\<lambda>x. x \<noteq> k) ks"

text \<open>\<open>enqueue\<close>: the store part (the \<open>setImmediate\<close> only schedules a
  \<open>_processQueue\<close>).\<close>

definition enqueue :: "storage \<Rightarrow> string \<Rightarrow> string \<Rightarrow> string \<Rightarrow> string \<Rightarrow> string \<times> storage" where
  "enqueue s vid q stamp rnd = createDownload s vid q stamp rnd"

text \<open>\<open>_handleFailure(downloadId, videoId, errorMessage)\<close>.\<close>

definition handleFailure :: "storage \<Rightarrow> string \<Rightarrow> string \<Rightarrow> string \<Rightarrow> string \<Rightarrow> storage" where
  "handleFailure s did vid msg now =
     (case find (\<lambda>d. dl_id d = did) (getPendingDownloads s 100) of
        None \<Rightarrow> s
      | Some currentDownload \<Rightarrow>
          (if dl_retryCount currentDownload < 2 then snd (retryFailedDownload s did)
           else updateDownloadStatus s did Failed
                  \<lparr>p_filePath = None, p_errorMessage = Some (Some (take 500 msg)),
                   p_completedAt = Some (Some now)\<rparr> now))"

text \<open>The source's message is \<open>'video information does not exist'\<close> in Chinese.\<close>

definition msg_no_video :: string where
  "msg_no_video = ''video information does not exist''"

text \<open>
  \<open>_downloadNext\<close> up to the point where it awaits the child process. With a video
  of the store it marks the task \<open>'downloading'\<close>, spawns \<open>yt-dlp\<close> and registers the
  id in \<open>activeDownloads\<close>; with no video it marks the task \<open>'failed'\<close> and its
  \<open>finally\<close> deletes the id. A lookup that only \<open>Object.prototype\<close> answers is not
  modelled (\<open>None\<close>): no task carries such a video id, see
  \<open>reachable_step_defined\<close>.
\<close>

definition downloadNext_start :: "sys \<Rightarrow> download \<Rightarrow> string \<Rightarrow> sys option" where
  "downloadNext_start s dl now =
     (case getVideo (sy_store s) (dl_videoId dl) of
        Undefined \<Rightarrow>
          Some (s\<lparr>sy_store := updateDownloadStatus (sy_store s) (dl_id dl) Failed
                              (no_patch\<lparr>p_errorMessage := Some (Some msg_no_video)\<rparr>) now,
                  activeDownloads := map_delete (dl_id dl) (activeDownloads s)\<rparr>)
      | Own v \<Rightarrow>
          Some (s\<lparr>sy_store := updateDownloadStatus (sy_store s) (dl_id dl) Downloading no_patch now,
                  procs := procs s @ [\<lparr>pr_id = dl_id dl, pr_videoId = dl_videoId dl, pr_title = v_title v\<rparr>],
                  activeDownloads := map_set (dl_id dl) (activeDownloads s)\<rparr>)
      | Inherited \<Rightarrow> None)"

text \<open>\<open>_downloadNext\<close> after the child process has ended.\<close>

definition downloadNext_finish :: "config \<Rightarrow> sys \<Rightarrow> proc \<Rightarrow> exit_result \<Rightarrow> string \<Rightarrow> sys" where
  "downloadNext_finish cfg s p r now =
     (let st = (case r of
                  Exit0 \<Rightarrow>
                    updateDownloadStatus (sy_store s) (pr_id p) Completed
                      \<lparr>p_filePath = Some (Some (outputFile cfg (pr_title p))), p_errorMessage = None,
                       p_completedAt = Some (Some now)\<rparr> now
                | ExitError msg \<Rightarrow> handleFailure (sy_store s) (pr_id p) (pr_videoId p) msg now)
      in s\<lparr>sy_store := st, activeDownloads := map_delete (pr_id p) (activeDownloads s)\<rparr>)"

text \<open>One run of \<open>_processQueue\<close>: a callback of the event loop, together with the
  continuations it leaves on resolved promises.\<close>

definition processQueue :: "config \<Rightarrow> sys \<Rightarrow> string \<Rightarrow> sys option" where
  "processQueue cfg s now =
     (if isStopping s \<or> \<not> isRunning s then Some s
      else if length (activeDownloads s) \<ge> maxConcurrentDownloads cfg then Some s
      else (case getPendingDownloads (sy_store s) 1 of
              [] \<Rightarrow> Some s
            | dl # _ \<Rightarrow> downloadNext_start s dl now))"

definition queue_start :: "config \<Rightarrow> sys \<Rightarrow> string \<Rightarrow> sys option" where
  "queue_start cfg s now =
     (if isRunning s then Some s
      else processQueue cfg (s\<lparr>isRunning := True, isStopping := False\<rparr>) now)"

definition queue_stop :: "sys \<Rightarrow> sys" where
  "queue_stop s = s\<lparr>isStopping := True, isRunning := False\<rparr>"

section \<open>The scheduler (class MonitoringScheduler)\<close>

text \<open>
  What the environment gives while one channel is checked: the outcome of the listing
  (a rejection, or the videos), the clock and random readings for the i-th new
  video, and the clock reading for \<open>lastCheckAt\<close>.
\<close>

datatype fetch_error = FetchError string

record sample =
  s_now :: string
  s_stamp :: string
  s_rnd :: string

record chan_env =
  ce_result :: "fetch_error + videoData list"
  ce_samples :: "nat \<Rightarrow> sample"
  ce_checkedAt :: string

text \<open>Step 3 of \<open>checkChannel\<close>: each new video is added and enqueued.\<close>

fun add_new_videos :: "config \<Rightarrow> storage \<Rightarrow> string \<Rightarrow> videoData list \<Rightarrow> (nat \<Rightarrow> sample) \<Rightarrow> storage" where
  "add_new_videos cfg s cid [] env = s"
| "add_new_videos cfg s cid (v # vs) env =
     (let s1 = snd (addVideo s cid v (s_now (env 0)));
          s2 = snd (enqueue s1 (vd_id v) (defaultQuality cfg) (s_stamp (env 0)) (s_rnd (env 0)))
      in add_new_videos cfg s2 cid vs (\<lambda>i. env (Suc i)))"

definition checkChannel :: "config \<Rightarrow> storage \<Rightarrow> channel \<Rightarrow> chan_env \<Rightarrow> (fetch_error + nat) \<times> storage" where
  "checkChannel cfg s ch env =
     (case ce_result env of
        Inl e \<Rightarrow> (Inl e, s)
      | Inr fetched \<Rightarrow>
          (let new = filter (\<lambda>v. \<not> videoExists s (vd_id v)) fetched
           in if new = [] then (Inr 0, updateChannelLastCheck s (ch_id ch) (ce_checkedAt env))
              else (Inr (length new),
                    updateChannelLastCheck (add_new_videos cfg s (ch_id ch) new (ce_samples env))
                      (ch_id ch) (ce_checkedAt env))))"

text \<open>One iteration of the loop of \<open>checkAllChannelsNow\<close>, with its \<open>try/catch\<close>.\<close>

definition check_one :: "config \<Rightarrow> channel \<Rightarrow> chan_env \<Rightarrow> storage \<times> scan_stats \<Rightarrow> storage \<times> scan_stats" where
  "check_one cfg ch env acc =
     (case checkChannel cfg (fst acc) ch env of
        (Inr n, s') \<Rightarrow> (s', (snd acc)\<lparr>newVideos := newVideos (snd acc) + n\<rparr>)
      | (Inl e, s') \<Rightarrow> (s', (snd acc)\<lparr>errors := errors (snd acc) + 1\<rparr>))"

text \<open>The whole loop, run with nothing else in between; \<open>envs i\<close> is the environment
  of the i-th channel.\<close>

fun check_channels :: "config \<Rightarrow> channel list \<Rightarrow> (nat \<Rightarrow> chan_env) \<Rightarrow> storage \<times> scan_stats \<Rightarrow> storage \<times> scan_stats" where
  "check_channels cfg [] envs acc = acc"
| "check_channels cfg (ch # chs) envs acc =
     check_channels cfg chs (\<lambda>i. envs (Suc i)) (check_one cfg ch (envs 0) acc)"

definition stats0 :: "nat \<Rightarrow> scan_stats" where
  "stats0 n = \<lparr>totalChannels = n, newVideos = 0, errors = 0\<rparr>"

definition scan_pass :: "config \<Rightarrow> storage \<Rightarrow> (nat \<Rightarrow> chan_env) \<Rightarrow> storage \<times> scan_stats" where
  "scan_pass cfg s envs =
     (let chans = getChannels s True in check_channels cfg chans envs (s, stats0 (length chans)))"

text \<open>
  \<open>checkAllChannelsNow\<close> up to its first wait: the guard, the flag, the list of
  enabled channels. With no enabled channel the \<open>finally\<close> clears the flag at once.
\<close>

definition checkAllChannelsNow :: "sys \<Rightarrow> sys" where
  "checkAllChannelsNow s =
     (if isChecking s then s
      else (let chans = getChannels (sy_store s) True
            in if chans = [] then s\<lparr>isChecking := False\<rparr>
               else s\<lparr>isChecking := True,
                      passes := passes s @ [\<lparr>ps_todo = chans, ps_stats = stats0 (length chans)\<rparr>]\<rparr>))"

text \<open>The listing of the next channel of the j-th suspended pass has come back: that
  pass runs one iteration, and after the last one its \<open>finally\<close> clears the flag.\<close>

definition drop_nth :: "nat \<Rightarrow> 'a list \<Rightarrow> 'a list" where
  "drop_nth j xs = take j xs @ drop (Suc j) xs"

definition channelChecked :: "config \<Rightarrow> sys \<Rightarrow> nat \<Rightarrow> chan_env \<Rightarrow> sys" where
  "channelChecked cfg s j env =
     (if j < length (passes s) then
        (case ps_todo (passes s ! j) of
           [] \<Rightarrow> s
         | ch # rest \<Rightarrow>
             (let r = check_one cfg ch env (sy_store s, ps_stats (passes s ! j))
              in if rest = [] then s\<lparr>sy_store := fst r, passes := drop_nth j (passes s), isChecking := False\<rparr>
                 else s\<lparr>sy_store := fst r, passes := (passes s)[j := \<lparr>ps_todo = rest, ps_stats = snd r\<rparr>]\<rparr>))
      else s)"

section \<open>The process as a transition system\<close>

text \<open>
  Node runs one callback at a time and empties the queue of promise continuations
  before the next callback. Every \<open>await\<close> on a store method waits on a promise that
  is already resolved (the store works with synchronous file calls), so the only real
  waits are on child processes and timers. An event below is one callback with the
  continuations it leaves behind.
\<close>

definition retryRoute :: "sys \<Rightarrow> string \<Rightarrow> sys" where
  "retryRoute s did = s\<lparr>sy_store := snd (retryFailedDownload (sy_store s) did)\<rparr>"

text \<open>The cleanup service clears the file path of a completed download whose files it
  deleted.\<close>

definition cleanupOne :: "sys \<Rightarrow> string \<Rightarrow> string \<Rightarrow> sys" where
  "cleanupOne s did now =
     (if list_ex (\<lambda>dl. dl_id dl = did \<and> dl_status dl = Completed \<and> truthy (dl_completedAt dl) \<and> truthy (dl_filePath dl))
           (downloads (st_data (sy_store s)))
      then s\<lparr>sy_store := updateDownloadStatus (sy_store s) did Completed
                            (no_patch\<lparr>p_filePath := Some None\<rparr>) now\<rparr>
      else s)"

definition procClosed :: "config \<Rightarrow> sys \<Rightarrow> nat \<Rightarrow> exit_result \<Rightarrow> string \<Rightarrow> sys" where
  "procClosed cfg s i r now =
     (if i < length (procs s)
      then downloadNext_finish cfg (s\<lparr>procs := drop_nth i (procs s)\<rparr>) (procs s ! i) r now
      else s)"

text \<open>Start of the server process over the files on disk: \<open>storage.init()\<close>, a new
  queue that is started, a new scheduler.\<close>

definition boot :: "config \<Rightarrow> disk_file option \<Rightarrow> disk_file list \<Rightarrow> string \<Rightarrow> sys option" where
  "boot cfg disk backups now =
     queue_start cfg
       \<lparr>sy_store = init (new_Storage disk backups), activeDownloads = [], isRunning = False,
        isStopping = False, procs = [], isChecking = False, passes = []\<rparr> now"

text \<open>
  The events: the channel routes, a trigger of the scan (cron, the first check after
  start, the check-now route), the listing of a channel coming back, a scheduled
  \<open>_processQueue\<close>, a child process ending, the retry route, the cleanup service
  clearing one download, the queue being stopped and the last save of a shutdown, and
  the process being started again over the files the last one left.
\<close>

datatype event =
    AddChannel string "string option" string string
  | ToggleChannel string bool
  | RemoveChannel string
  | CheckNow
  | ChannelChecked nat chan_env
  | ProcessQueue string
  | ProcClosed nat exit_result string
  | RetryRoute string
  | CleanupOne string string
  | QueueStop
  | FinalSave
  | Restart string

fun step :: "config \<Rightarrow> sys \<Rightarrow> event \<Rightarrow> sys option" where
  "step cfg s (AddChannel u nm stamp now) = Some (s\<lparr>sy_store := snd (addChannel (sy_store s) u nm stamp now)\<rparr>)"
| "step cfg s (ToggleChannel cid en) = Some (s\<lparr>sy_store := toggleChannel (sy_store s) cid en\<rparr>)"
| "step cfg s (RemoveChannel cid) = Some (s\<lparr>sy_store := removeChannel (sy_store s) cid\<rparr>)"
| "step cfg s CheckNow = Some (checkAllChannelsNow s)"
| "step cfg s (ChannelChecked j env) = Some (channelChecked cfg s j env)"
| "step cfg s (ProcessQueue now) = processQueue cfg s now"
| "step cfg s (ProcClosed i r now) = Some (procClosed cfg s i r now)"
| "step cfg s (RetryRoute did) = Some (retryRoute s did)"
| "step cfg s (CleanupOne did now) = Some (cleanupOne s did now)"
| "step cfg s QueueStop = Some (queue_stop s)"
| "step cfg s FinalSave = Some (s\<lparr>sy_store := save (sy_store s)\<rparr>)"
| "step cfg s (Restart now) = boot cfg (st_disk (sy_store s)) (st_backups (sy_store s)) now"

fun run :: "config \<Rightarrow> sys \<Rightarrow> event list \<Rightarrow> sys option" where
  "run cfg s [] = Some s"
| "run cfg s (e # es) = (case step cfg s e of None \<Rightarrow> None | Some s' \<Rightarrow> run cfg s' es)"

text \<open>The states the process can be in: it starts on a machine with no store file or
  with an unreadable one, and moves by events.\<close>

inductive reachable :: "config \<Rightarrow> sys \<Rightarrow> bool" for cfg :: config where
  fresh: "boot cfg None [] now = Some s \<Longrightarrow> reachable cfg s"
| unreadable: "boot cfg (Some Unparseable) [] now = Some s \<Longrightarrow> reachable cfg s"
| event: "reachable cfg s \<Longrightarrow> step cfg s e = Some s' \<Longrightarrow> reachable cfg s'"

section \<open>Predicates used in the statements\<close>

text \<open>\<open>same_for k s s'\<close>: the two stores hold the same video under the key \<open>k\<close>, the
  same entries for \<open>k\<close>, and the same tasks for \<open>k\<close>, in the same order.\<close>

definition same_for :: "string \<Rightarrow> storage \<Rightarrow> storage \<Rightarrow> bool" where
  "same_for k s s' =
     (map_of (videos (st_data s')) k = map_of (videos (st_data s)) k
      \<and> filter (\<lambda>kv. fst kv = k) (videos (st_data s')) = filter (\<lambda>kv. fst kv = k) (videos (st_data s))
      \<and> filter (\<lambda>dl. dl_videoId dl = k) (downloads (st_data s')) = filter (\<lambda>dl. dl_videoId dl = k) (downloads (st_data s)))"





text \<open>The process started on a machine with no store file, then a list of events.\<close>

definition run_from_boot :: "config \<Rightarrow> string \<Rightarrow> event list \<Rightarrow> sys option" where
  "run_from_boot cfg now es = (case boot cfg None [] now of None \<Rightarrow> None | Some s \<Rightarrow> run cfg s es)"

text \<open>
  The invariant of the document: no two tasks are for the same video, every task is for
  a video that is stored under its own key, and no \<open>retryCount\<close> exceeds 2. The
  invariant of the store adds that the file on disk is the document in memory.
\<close>

definition data_inv :: "store_data \<Rightarrow> bool" where
  "data_inv d =
     (distinct (map dl_videoId (downloads d))
      \<and> set (map dl_videoId (downloads d)) \<subseteq> fst ` set (videos d)
      \<and> list_all (\<lambda>dl. dl_retryCount dl \<le> 2) (downloads d))"

definition store_inv :: "storage \<Rightarrow> bool" where
  "store_inv s = (data_inv (st_data s) \<and> st_disk s = Some (Doc (st_data s)))"

text \<open>The invariants of the queue and of the scheduler.\<close>

definition active_bound :: "config \<Rightarrow> sys \<Rightarrow> bool" where
  "active_bound cfg s = (length (activeDownloads s) \<le> maxConcurrentDownloads cfg)"

definition scan_inv :: "sys \<Rightarrow> bool" where
  "scan_inv s = (length (passes s) \<le> 1 \<and> (passes s \<noteq> [] \<longrightarrow> isChecking s))"

text \<open>One iteration of the loop of \<open>add_new_videos\<close>, as a function on stores.\<close>

definition add_one :: "config \<Rightarrow> string \<Rightarrow> videoData \<Rightarrow> sample \<Rightarrow> storage \<Rightarrow> storage" where
  "add_one cfg cid v e s =
     snd (enqueue (snd (addVideo s cid v (s_now e))) (vd_id v) (defaultQuality cfg) (s_stamp e) (s_rnd e))"

text \<open>\<open>grows s s'\<close>: every video that exists for \<open>s\<close> exists for \<open>s'\<close>, every video id
  queued in \<open>s\<close> is queued in \<open>s'\<close>, and every video that exists for \<open>s'\<close> only is
  queued in \<open>s'\<close>.\<close>

definition grows :: "storage \<Rightarrow> storage \<Rightarrow> bool" where
  "grows s s' =
     (\<forall>k. (videoExists s k \<longrightarrow> videoExists s' k)
        \<and> (list_ex (in_queue k) (downloads (st_data s)) \<longrightarrow> list_ex (in_queue k) (downloads (st_data s')))
        \<and> (videoExists s' k \<longrightarrow> \<not> videoExists s k \<longrightarrow> list_ex (in_queue k) (downloads (st_data s'))))"

section \<open>Example states\<close>

text \<open>A task, a channel and a video as the store writes them.\<close>

definition pending_a :: download where
  "pending_a = \<lparr>dl_id = ''dl_1700000000000_k3j9x0q2a'', dl_videoId = ''a'', dl_status = Pending,
                 dl_quality = ''720p'', dl_filePath = None, dl_retryCount = 0, dl_errorMessage = None,
                 dl_startedAt = None, dl_completedAt = None\<rparr>"

definition channel_one :: channel where
  "channel_one = \<lparr>ch_id = ''ch_1700000000000'', ch_url = ''https://youtube.com/@one'',
                   ch_name = Some ''One'', ch_enabled = True, ch_lastCheckAt = None,
                   ch_createdAt = ''2023-11-14T22:13:20.000Z''\<rparr>"

definition video_a :: video where
  "video_a = \<lparr>v_id = Some ''a'', v_channelId = ''ch_1700000000000'', v_title = ''A'',
               v_url = ''https://youtube.com/watch?v=a'', v_thumbnail = ''https://i.ytimg.com/vi/a/mqdefault.jpg'',
               v_duration = None, v_uploadDate = None, v_discoveredAt = ''2023-11-14T22:14:00.000Z''\<rparr>"

text \<open>A store file left behind by a process that died while downloading \<open>a\<close>.\<close>

definition crashed_doc :: store_data where
  "crashed_doc = \<lparr>channels = [channel_one], videos = [(''a'', video_a)],
                   downloads = [pending_a\<lparr>dl_status := Downloading, dl_startedAt := Some ''2023-11-14T22:15:00.000Z''\<rparr>]\<rparr>"

definition crashed_store :: storage where
  "crashed_store = new_Storage (Some (Doc crashed_doc)) []"

text \<open>A store in memory and on disk with one channel, one video and its pending task.\<close>

definition store_one :: storage where
  "store_one = save \<lparr>st_data = \<lparr>channels = [channel_one], videos = [(''a'', video_a)], downloads = [pending_a]\<rparr>,
                     st_disk = None, st_backups = []\<rparr>"

text \<open>A configuration with two download slots.\<close>

definition cfg_two :: config where
  "cfg_two = \<lparr>maxConcurrentDownloads = 2, defaultQuality = ''720p'',
              outputFile = (\<lambda>title. ''downloads/'' @ title @ ''.mp4'')\<rparr>"

text \<open>What the listing returns for the video with id \<open>k\<close>, a clock reading, the
  environment of a channel whose listing returns the videos \<open>ks\<close>, and that of a
  channel whose listing is rejected.\<close>

definition listed :: "string \<Rightarrow> videoData" where
  "listed k = \<lparr>vd_id = k, vd_title = ''Video '' @ k, vd_url = ''https://youtube.com/watch?v='' @ k,
               vd_thumbnail = ''https://i.ytimg.com/vi/'' @ k @ ''/mqdefault.jpg'',
               vd_duration = None, vd_upload_date = None\<rparr>"

definition t0 :: string where
  "t0 = ''2023-11-14T22:13:20.000Z''"

definition listing :: "string list \<Rightarrow> chan_env" where
  "listing ks = \<lparr>ce_result = Inr (map listed ks),
                 ce_samples = (\<lambda>i. \<lparr>s_now = t0, s_stamp = ''1700000000000'', s_rnd = replicate (Suc i) CHR ''x''\<rparr>),
                 ce_checkedAt = t0\<rparr>"

definition listing_fails :: chan_env where
  "listing_fails = (listing [])\<lparr>ce_result := Inl (FetchError ''yt-dlp exit code 1'')\<rparr>"

text \<open>
  Runs of the process from a fresh install. \<open>scan_trace\<close>: a channel is added and a
  scan is triggered. \<open>queued_trace\<close>: the listing then returns \<open>a\<close>, \<open>b\<close> and \<open>c\<close>.
  \<open>fail_trace\<close>: the listing returns \<open>a\<close>, the queue dispatches its task and
  \<open>yt-dlp\<close> fails; the queue runs once more. \<open>overrun_trace\<close>: after
  \<open>queued_trace\<close> the queue dispatches \<open>a\<close>, the retry route is called for the task
  of \<open>a\<close>, the queue dispatches \<open>a\<close> again, the first process of \<open>a\<close> exits with
  code 0, and the queue dispatches \<open>b\<close> and \<open>c\<close>.
\<close>

definition scan_trace :: "event list" where
  "scan_trace = [AddChannel ''https://youtube.com/@one'' (Some ''One'') ''1700000000000'' t0, CheckNow]"

definition queued_trace :: "event list" where
  "queued_trace = scan_trace @ [ChannelChecked 0 (listing [''a'', ''b'', ''c''])]"

definition fail_trace :: "event list" where
  "fail_trace = scan_trace @ [ChannelChecked 0 (listing [''a'']), ProcessQueue t0,
                  ProcClosed 0 (ExitError ''yt-dlp exit code 1'') t0, ProcessQueue t0]"

definition overrun_trace :: "event list" where
  "overrun_trace = queued_trace @ [ProcessQueue t0, RetryRoute ''dl_1700000000000_x'', ProcessQueue t0,
                     ProcClosed 0 Exit0 t0, ProcessQueue t0, ProcessQueue t0]"

text \<open>The video id, state, retry count and error message of every task.\<close>

definition task_view :: "sys \<Rightarrow> (string \<times> dl_status \<times> nat \<times> string option) list" where
  "task_view s = map (\<lambda>dl. (dl_videoId dl, dl_status dl, dl_retryCount dl, dl_errorMessage dl))
                   (downloads (st_data (sy_store s)))"

text \<open>The states at the end of \<open>scan_trace\<close> and of \<open>queued_trace\<close>.\<close>

definition scanning_sys :: sys where
  "scanning_sys = the (run_from_boot cfg_two t0 scan_trace)"

definition queued_sys :: sys where
  "queued_sys = the (run_from_boot cfg_two t0 queued_trace)"

text \<open>Stores whose one task is being downloaded, is completed, and has failed for
  good.\<close>

definition busy_store :: storage where
  "busy_store = \<lparr>st_data = crashed_doc, st_disk = None, st_backups = []\<rparr>"

definition done_store :: storage where
  "done_store = save \<lparr>st_data = \<lparr>channels = [channel_one], videos = [(''a'', video_a)],
                       downloads = [pending_a\<lparr>dl_status := Completed, dl_filePath := Some ''downloads/A.mp4'',
                                      dl_startedAt := Some ''2023-11-14T22:15:00.000Z'',
                                      dl_completedAt := Some ''2023-11-14T22:16:00.000Z''\<rparr>]\<rparr>,
                     st_disk = None, st_backups = []\<rparr>"


text \<open>A store with two enabled channels and nothing else; the listing of the first
  channel is rejected, the second lists video \<open>b\<close>.\<close>

definition channel_two :: channel where
  "channel_two = \<lparr>ch_id = ''ch_1700000000001'', ch_url = ''https://youtube.com/@two'',
                   ch_name = None, ch_enabled = True, ch_lastCheckAt = None,
                   ch_createdAt = ''2023-11-14T22:13:21.000Z''\<rparr>"

definition two_channels :: storage where
  "two_channels = save \<lparr>st_data = \<lparr>channels = [channel_one, channel_two], videos = [], downloads = []\<rparr>,
                        st_disk = None, st_backups = []\<rparr>"

definition first_fails :: "nat \<Rightarrow> chan_env" where
  "first_fails i = (if i = 0 then listing_fails else listing [''b''])"



section \<open>Properties of the store\<close>

lemma save_data: "st_data (save s) = st_data s"
  by (simp add: save_def)

lemma update_first_map:
  "(\<And>x. g (f x) = g x) \<Longrightarrow> map g (update_first p f xs) = map g xs"
  by (induction xs) auto

lemma update_first_all2:
  "(\<And>x. R x x) \<Longrightarrow> (\<And>x. p x \<Longrightarrow> R x (f x)) \<Longrightarrow> list_all2 R xs (update_first p f xs)"
  by (induction xs) (auto simp: list_all2_refl)

subsection \<open>init and save\<close>

lemma map_reset_id:
  "filter (\<lambda>dl. dl_status dl = Downloading) ds = [] \<Longrightarrow> map reset_download ds = ds"
  by (induction ds) (auto simp: reset_download_def split: if_splits)

lemma map_migrate_id:
  "\<not> list_ex (\<lambda>kv. \<not> truthy (v_id (snd kv))) vs \<Longrightarrow> map migrate_video vs = vs"
  by (induction vs) (auto simp: migrate_video_def)

lemma reset_not_downloading: "dl_status (reset_download dl) \<noteq> Downloading"
  by (simp add: reset_download_def)

lemma init_normalise_data:
  "st_data (init_normalise s) =
     (st_data s)\<lparr>downloads := map reset_download (downloads (st_data s)),
                 videos := map migrate_video (videos (st_data s))\<rparr>"
  by (simp add: init_normalise_def Let_def save_def)

lemma init_normalise_disk:
  "st_disk s = Some (Doc (st_data s)) \<Longrightarrow>
   st_disk (init_normalise s) = Some (Doc (st_data (init_normalise s)))"
  by (auto simp: init_normalise_def Let_def save_def map_reset_id map_migrate_id)

lemma init_doc_data:
  "st_disk s = Some (Doc d) \<Longrightarrow>
   st_data (init s) = d\<lparr>downloads := map reset_download (downloads d), videos := map migrate_video (videos d)\<rparr>"
  by (simp add: init_def init_normalise_data)

lemma init_doc_disk:
  "st_disk s = Some (Doc d) \<Longrightarrow> st_disk (init s) = Some (Doc (st_data (init s)))"
  by (simp add: init_def init_normalise_disk)

text \<open>
  Claim C3 (crash recovery). When the store file holds a document, \<open>init\<close> returns
  its tasks with every \<open>'downloading'\<close> one set to \<open>'pending'\<close> and nothing else
  changed in them, no task is \<open>'downloading'\<close> afterwards, and the file on disk is
  the document that is in memory, so the reset is persisted.
\<close>

theorem init_resets_downloading:
  assumes "st_disk s = Some (Doc d)"
  shows "downloads (st_data (init s)) = map reset_download (downloads d)
       \<and> list_all (\<lambda>dl. dl_status dl \<noteq> Downloading) (downloads (st_data (init s)))
       \<and> st_disk (init s) = Some (Doc (st_data (init s)))"
proof -
  have eq: "downloads (st_data (init s)) = map reset_download (downloads d)"
    using assms by (simp add: init_doc_data)
  have "list_all (\<lambda>dl. dl_status dl \<noteq> Downloading) (map reset_download (downloads d))"
    by (simp add: list_all_iff reset_not_downloading)
  with eq init_doc_disk[OF assms] show ?thesis by simp
qed

text \<open>The store file of a process that died while downloading \<open>a\<close>.\<close>

theorem init_resets_downloading_witness:
  "st_disk crashed_store = Some (Doc crashed_doc)
   \<and> map dl_status (downloads crashed_doc) = [Downloading]
   \<and> downloads (st_data (init crashed_store)) = [pending_a\<lparr>dl_startedAt := Some ''2023-11-14T22:15:00.000Z''\<rparr>]
   \<and> st_disk (init crashed_store) = Some (Doc (st_data (init crashed_store)))"
proof -
  have h: "st_disk crashed_store = Some (Doc crashed_doc)"
    by (simp add: crashed_store_def new_Storage_def)
  show ?thesis
    using h init_resets_downloading [OF h]
    by (simp add: crashed_doc_def reset_download_def pending_a_def)
qed

subsection \<open>Channels\<close>

text \<open>
  Claim C10 (source registration is idempotent on the URL). When a channel with the
  URL is registered, \<open>addChannel\<close> returns the id of the first such channel and the
  store it was given: no channel is added and no field of a channel changes.
\<close>

theorem addChannel_existing_url:
  assumes "ch \<in> set (channels (st_data s))" and "ch_url ch = u"
  shows "\<exists>ex. find (\<lambda>c. ch_url c = u) (channels (st_data s)) = Some ex
            \<and> ex \<in> set (channels (st_data s)) \<and> ch_url ex = u
            \<and> addChannel s u nm stamp now = (ch_id ex, s)"
proof -
  from assms have "find (\<lambda>c. ch_url c = u) (channels (st_data s)) \<noteq> None"
    by (auto simp: find_None_iff)
  then obtain ex where ex: "find (\<lambda>c. ch_url c = u) (channels (st_data s)) = Some ex"
    by blast
  then have "ex \<in> set (channels (st_data s))" "ch_url ex = u"
    by (auto simp: find_Some_iff)
  moreover from ex have "addChannel s u nm stamp now = (ch_id ex, s)"
    by (simp add: addChannel_def)
  ultimately show ?thesis using ex by blast
qed

text \<open>Registering the URL of \<open>channel_one\<close> again, under another name.\<close>

theorem addChannel_existing_url_witness:
  "channel_one \<in> set (channels (st_data store_one))
   \<and> addChannel store_one ''https://youtube.com/@one'' (Some ''Other name'') ''1700000999999'' ''2023-11-14T22:29:59.999Z''
       = (''ch_1700000000000'', store_one)"
proof -
  have h1: "channel_one \<in> set (channels (st_data store_one))"
    by (simp add: store_one_def save_def)
  have h2: "ch_url channel_one = ''https://youtube.com/@one''"
    by (simp add: channel_one_def)
  have "channels (st_data store_one) = [channel_one]"
    by (simp add: store_one_def save_def)
  with addChannel_existing_url [OF h1 h2, of "Some ''Other name''" "''1700000999999''" "''2023-11-14T22:29:59.999Z''"]
  show ?thesis using h1 by (auto simp: channel_one_def)
qed

subsection \<open>The store invariant\<close>

lemma update_first_list_all:
  "list_all P xs \<Longrightarrow> (\<And>x. x \<in> set xs \<Longrightarrow> p x \<Longrightarrow> find p xs = Some x \<Longrightarrow> P (f x)) \<Longrightarrow>
   list_all P (update_first p f xs)"
  by (induction xs) auto

lemma data_inv_channels: "data_inv (d\<lparr>channels := cs\<rparr>) = data_inv d"
  by (simp add: data_inv_def)

lemma store_inv_save: "data_inv (st_data s) \<Longrightarrow> store_inv (save s)"
  by (simp add: store_inv_def save_def)

lemma save_inv: "store_inv s \<Longrightarrow> store_inv (save s)"
  by (simp add: store_inv_def save_def)

lemma addChannel_inv: "store_inv s \<Longrightarrow> store_inv (snd (addChannel s u nm stamp now))"
  by (auto simp: addChannel_def Let_def store_inv_def save_def data_inv_channels split: option.splits)

lemma toggleChannel_inv: "store_inv s \<Longrightarrow> store_inv (toggleChannel s cid en)"
  by (auto simp: toggleChannel_def Let_def store_inv_def save_def data_inv_channels split: option.splits)

lemma removeChannel_inv: "store_inv s \<Longrightarrow> store_inv (removeChannel s cid)"
  by (auto simp: removeChannel_def Let_def store_inv_def save_def data_inv_channels split: option.splits)

lemma updateChannelLastCheck_inv: "store_inv s \<Longrightarrow> store_inv (updateChannelLastCheck s cid now)"
  by (auto simp: updateChannelLastCheck_def Let_def store_inv_def save_def data_inv_channels split: option.splits)

lemma addVideo_inv: "store_inv s \<Longrightarrow> store_inv (snd (addVideo s cid vd now))"
  by (auto simp: addVideo_def Let_def store_inv_def save_def data_inv_def)

lemma set_status_videoId: "dl_videoId (set_status st p now dl) = dl_videoId dl"
  by (simp add: set_status_def assign_patch_def Let_def split: option.splits)

lemma set_status_retryCount: "dl_retryCount (set_status st p now dl) = dl_retryCount dl"
  by (simp add: set_status_def assign_patch_def Let_def split: option.splits)

lemma updateDownloadStatus_videos:
  "videos (st_data (updateDownloadStatus s did st p now)) = videos (st_data s)"
  by (simp add: updateDownloadStatus_def Let_def save_def split: option.splits)

lemma updateDownloadStatus_videoIds:
  "map dl_videoId (downloads (st_data (updateDownloadStatus s did st p now))) = map dl_videoId (downloads (st_data s))"
  by (simp add: updateDownloadStatus_def Let_def save_def update_first_map set_status_videoId split: option.splits)

lemma updateDownloadStatus_retryCounts:
  "map dl_retryCount (downloads (st_data (updateDownloadStatus s did st p now))) = map dl_retryCount (downloads (st_data s))"
  by (simp add: updateDownloadStatus_def Let_def save_def update_first_map set_status_retryCount split: option.splits)

lemma list_all_retry_map:
  "list_all (\<lambda>dl. dl_retryCount dl \<le> n) ds = list_all (\<lambda>c. c \<le> n) (map dl_retryCount ds)"
  by (simp add: list_all_iff)

lemma data_inv_cong:
  "map dl_videoId (downloads d') = map dl_videoId (downloads d) \<Longrightarrow>
   map dl_retryCount (downloads d') = map dl_retryCount (downloads d) \<Longrightarrow>
   fst ` set (videos d') = fst ` set (videos d) \<Longrightarrow> data_inv d \<Longrightarrow> data_inv d'"
  by (simp add: data_inv_def list_all_retry_map)

lemma updateDownloadStatus_synced:
  "st_disk s = Some (Doc (st_data s)) \<Longrightarrow>
   st_disk (updateDownloadStatus s did st p now) = Some (Doc (st_data (updateDownloadStatus s did st p now)))"
  by (simp add: updateDownloadStatus_def Let_def save_def split: option.splits)

lemma updateDownloadStatus_inv:
  assumes "store_inv s"
  shows "store_inv (updateDownloadStatus s did st p now)"
proof -
  have "data_inv (st_data s)" using assms by (simp add: store_inv_def)
  then have "data_inv (st_data (updateDownloadStatus s did st p now))"
    by (rule data_inv_cong[rotated 3])
       (simp_all add: updateDownloadStatus_videoIds updateDownloadStatus_retryCounts
          updateDownloadStatus_videos)
  with assms show ?thesis by (simp add: store_inv_def updateDownloadStatus_synced)
qed

lemma requeue_videoId: "dl_videoId (requeue dl) = dl_videoId dl"
  by (simp add: requeue_def)

lemma retryFailedDownload_inv: "store_inv s \<Longrightarrow> store_inv (snd (retryFailedDownload s did))"
proof (cases "find (\<lambda>dl. dl_id dl = did) (downloads (st_data s))")
  case None
  then show "store_inv s \<Longrightarrow> ?thesis" by (simp add: retryFailedDownload_def)
next
  case (Some dl)
  assume inv: "store_inv s"
  show ?thesis
  proof (cases "dl_retryCount dl < 2")
    case False
    with Some inv show ?thesis by (simp add: retryFailedDownload_def)
  next
    case True
    let ?ds = "update_first (\<lambda>dl. dl_id dl = did) requeue (downloads (st_data s))"
    have a: "map dl_videoId ?ds = map dl_videoId (downloads (st_data s))"
      by (simp add: update_first_map requeue_videoId)
    have "list_all (\<lambda>dl. dl_retryCount dl \<le> 2) (downloads (st_data s))"
      using inv by (simp add: store_inv_def data_inv_def)
    then have b: "list_all (\<lambda>dl. dl_retryCount dl \<le> 2) ?ds"
      by (rule update_first_list_all) (use Some True in \<open>simp add: requeue_def\<close>)
    have "data_inv ((st_data s)\<lparr>downloads := ?ds\<rparr>)"
      using inv a b by (simp add: store_inv_def data_inv_def)
    then show ?thesis using Some True
      by (simp add: retryFailedDownload_def Let_def store_inv_def save_def)
  qed
qed

lemma handleFailure_inv: "store_inv s \<Longrightarrow> store_inv (handleFailure s did vid msg now)"
  by (simp add: handleFailure_def retryFailedDownload_inv updateDownloadStatus_inv split: option.splits)

lemma createDownload_inv:
  assumes "store_inv s" and "vid \<in> fst ` set (videos (st_data s))"
    and "vid \<in> set (map dl_videoId (downloads (st_data s))) \<Longrightarrow> list_ex (in_queue vid) (downloads (st_data s))"
  shows "store_inv (snd (createDownload s vid q stamp rnd))"
proof (cases "find (in_queue vid) (downloads (st_data s))")
  case (Some dl)
  with assms(1) show ?thesis by (simp add: createDownload_def)
next
  case None
  then have "\<not> list_ex (in_queue vid) (downloads (st_data s))"
    by (simp add: find_None_iff list_ex_iff)
  with assms(3) have "vid \<notin> set (map dl_videoId (downloads (st_data s)))" by blast
  with assms(1,2) None show ?thesis
    by (auto simp: createDownload_def Let_def store_inv_def save_def data_inv_def)
qed

lemma find_SomeD: "find P xs = Some x \<Longrightarrow> P x \<and> x \<in> set xs"
  by (induction xs) (auto split: if_splits)

lemma createDownload_queued:
  "list_ex (in_queue vid) (downloads (st_data (snd (createDownload s vid q stamp rnd))))"
proof (cases "find (in_queue vid) (downloads (st_data s))")
  case None
  then show ?thesis by (simp add: createDownload_def Let_def save_def in_queue_def)
next
  case (Some dl)
  from find_SomeD[OF this] have "list_ex (in_queue vid) (downloads (st_data s))"
    by (auto simp: list_ex_iff)
  with Some show ?thesis by (simp add: createDownload_def)
qed

lemma createDownload_downloads_grow:
  "\<exists>new. downloads (st_data (snd (createDownload s vid q stamp rnd))) = downloads (st_data s) @ new
        \<and> list_all (\<lambda>dl. dl_videoId dl = vid \<and> dl_status dl = Pending \<and> dl_retryCount dl = 0) new"
proof (cases "find (in_queue vid) (downloads (st_data s))")
  case None
  then show ?thesis by (simp add: createDownload_def Let_def save_def)
next
  case (Some dl)
  then show ?thesis by (simp add: createDownload_def)
qed

lemma addVideo_downloads:
  "downloads (st_data (snd (addVideo s cid vd now))) = downloads (st_data s)"
  by (simp add: addVideo_def Let_def save_def)

lemma addVideo_stored:
  "vd_id vd \<notin> set object_prototype_keys \<Longrightarrow>
   vd_id vd \<in> fst ` set (videos (st_data (snd (addVideo s cid vd now))))"
  by (force simp: addVideo_def Let_def save_def videos_lookup_def split: option.splits if_splits
        dest: map_of_SomeD)

lemma add_new_videos_inv:
  "store_inv s \<Longrightarrow>
   (\<forall>x\<in>set vs. vd_id x \<notin> set object_prototype_keys
        \<and> (vd_id x \<in> set (map dl_videoId (downloads (st_data s))) \<longrightarrow> list_ex (in_queue (vd_id x)) (downloads (st_data s)))) \<Longrightarrow>
   store_inv (add_new_videos cfg s cid vs env)"
proof (induction vs arbitrary: s env)
  case Nil
  then show ?case by simp
next
  case (Cons x vs)
  let ?s1 = "snd (addVideo s cid x (s_now (env 0)))"
  let ?s2 = "snd (createDownload ?s1 (vd_id x) (defaultQuality cfg) (s_stamp (env 0)) (s_rnd (env 0)))"
  have i1: "store_inv ?s1" using Cons.prems(1) by (rule addVideo_inv)
  have k: "vd_id x \<in> fst ` set (videos (st_data ?s1))"
    using Cons.prems(2) by (simp add: addVideo_stored)
  have i2: "store_inv ?s2"
    using i1 k
  proof (rule createDownload_inv)
    assume "vd_id x \<in> set (map dl_videoId (downloads (st_data ?s1)))"
    with Cons.prems(2) show "list_ex (in_queue (vd_id x)) (downloads (st_data ?s1))"
      by (simp add: addVideo_downloads)
  qed
  have "\<exists>new. downloads (st_data ?s2) = downloads (st_data s) @ new
        \<and> list_all (\<lambda>dl. dl_videoId dl = vd_id x \<and> dl_status dl = Pending \<and> dl_retryCount dl = 0) new"
    using createDownload_downloads_grow[of ?s1 "vd_id x" "defaultQuality cfg" "s_stamp (env 0)" "s_rnd (env 0)"]
    by (simp add: addVideo_downloads)
  then obtain new where new: "downloads (st_data ?s2) = downloads (st_data s) @ new"
      "list_all (\<lambda>dl. dl_videoId dl = vd_id x \<and> dl_status dl = Pending \<and> dl_retryCount dl = 0) new"
    by blast
  have q: "list_ex (in_queue (vd_id x)) (downloads (st_data ?s2))"
    by (rule createDownload_queued)
  have p2: "\<forall>y\<in>set vs. vd_id y \<notin> set object_prototype_keys
        \<and> (vd_id y \<in> set (map dl_videoId (downloads (st_data ?s2))) \<longrightarrow> list_ex (in_queue (vd_id y)) (downloads (st_data ?s2)))"
  proof
    fix y assume y: "y \<in> set vs"
    with Cons.prems(2) have np: "vd_id y \<notin> set object_prototype_keys"
      and old: "vd_id y \<in> set (map dl_videoId (downloads (st_data s))) \<longrightarrow> list_ex (in_queue (vd_id y)) (downloads (st_data s))"
      by auto
    have "list_ex (in_queue (vd_id y)) (downloads (st_data ?s2))"
      if "vd_id y \<in> set (map dl_videoId (downloads (st_data ?s2)))"
    proof (cases "vd_id y = vd_id x")
      case True
      with q show ?thesis by simp
    next
      case False
      with that new have "vd_id y \<in> set (map dl_videoId (downloads (st_data s)))"
        by (auto simp: list_all_iff)
      with old have "list_ex (in_queue (vd_id y)) (downloads (st_data s))" by blast
      with new(1) show ?thesis by (auto simp: list_ex_iff)
    qed
    with np show "vd_id y \<notin> set object_prototype_keys
        \<and> (vd_id y \<in> set (map dl_videoId (downloads (st_data ?s2))) \<longrightarrow> list_ex (in_queue (vd_id y)) (downloads (st_data ?s2)))"
      by blast
  qed
  from Cons.IH[OF i2 p2] show ?case by (simp add: enqueue_def Let_def)
qed

lemma checkChannel_inv:
  assumes "store_inv s"
  shows "store_inv (snd (checkChannel cfg s ch env))"
proof (cases "ce_result env")
  case (Inl e)
  with assms show ?thesis by (simp add: checkChannel_def)
next
  case (Inr fetched)
  let ?new = "filter (\<lambda>v. \<not> videoExists s (vd_id v)) fetched"
  have "\<forall>x\<in>set ?new. vd_id x \<notin> set object_prototype_keys
        \<and> (vd_id x \<in> set (map dl_videoId (downloads (st_data s))) \<longrightarrow> list_ex (in_queue (vd_id x)) (downloads (st_data s)))"
  proof
    fix x assume "x \<in> set ?new"
    then have u: "videos_lookup s (vd_id x) = Undefined" by (simp add: videoExists_def)
    then have np: "vd_id x \<notin> set object_prototype_keys"
      by (auto simp: videos_lookup_def split: option.splits if_splits)
    from u have "map_of (videos (st_data s)) (vd_id x) = None"
      by (auto simp: videos_lookup_def split: option.splits)
    then have "vd_id x \<notin> fst ` set (videos (st_data s))" by (simp add: map_of_eq_None_iff)
    with assms have "vd_id x \<notin> set (map dl_videoId (downloads (st_data s)))"
      by (auto simp: store_inv_def data_inv_def)
    with np show "vd_id x \<notin> set object_prototype_keys
        \<and> (vd_id x \<in> set (map dl_videoId (downloads (st_data s))) \<longrightarrow> list_ex (in_queue (vd_id x)) (downloads (st_data s)))"
      by blast
  qed
  from add_new_videos_inv[OF assms this]
  have "store_inv (add_new_videos cfg s (ch_id ch) ?new (ce_samples env))" .
  with assms Inr show ?thesis
    by (simp add: checkChannel_def Let_def updateChannelLastCheck_inv)
qed

lemma check_one_inv: "store_inv (fst acc) \<Longrightarrow> store_inv (fst (check_one cfg ch env acc))"
  using checkChannel_inv[of "fst acc" cfg ch env]
  by (auto simp: check_one_def split: prod.splits sum.splits)

lemma reset_videoId: "dl_videoId (reset_download dl) = dl_videoId dl"
  by (simp add: reset_download_def)

lemma reset_retryCount: "dl_retryCount (reset_download dl) = dl_retryCount dl"
  by (simp add: reset_download_def)

lemma migrate_fst: "fst (migrate_video kv) = fst kv"
  by (simp add: migrate_video_def)

lemma init_normalise_inv:
  assumes "data_inv (st_data s)" and "st_disk s = Some (Doc (st_data s))"
  shows "store_inv (init_normalise s)"
proof -
  have "fst ` set (map migrate_video (videos (st_data s))) = fst ` set (videos (st_data s))"
    by (simp add: image_image migrate_fst)
  with assms(1) have "data_inv (st_data (init_normalise s))"
    by (elim data_inv_cong[rotated 3])
       (simp_all add: init_normalise_data reset_videoId reset_retryCount)
  with init_normalise_disk[OF assms(2)] show ?thesis by (simp add: store_inv_def)
qed

lemma init_inv:
  assumes "disk = None \<or> disk = Some Unparseable \<or> (\<exists>d. disk = Some (Doc d) \<and> data_inv d)"
  shows "store_inv (init (new_Storage disk backups))"
proof -
  have e: "data_inv empty_data" by (simp add: data_inv_def empty_data_def)
  consider "disk = None" | "disk = Some Unparseable" | d where "disk = Some (Doc d)" "data_inv d"
    using assms by blast
  then show ?thesis
  proof cases
    case 1
    then show ?thesis using e
      by (simp add: init_def new_Storage_def) (rule init_normalise_inv, simp_all add: save_def)
  next
    case 2
    then show ?thesis using e
      by (simp add: init_def new_Storage_def init_recover_def store_inv_def save_def)
  next
    case 3
    then show ?thesis
      by (simp add: init_def new_Storage_def) (rule init_normalise_inv, simp_all)
  qed
qed


section \<open>Properties of the process\<close>

lemma map_delete_length: "length (map_delete k ks) \<le> length ks"
  by (simp add: map_delete_def)

lemma map_set_length: "length (map_set k ks) \<le> Suc (length ks)"
  by (simp add: map_set_def)

lemma downloadNext_start_store:
  "downloadNext_start s dl now = Some s' \<Longrightarrow> store_inv (sy_store s) \<Longrightarrow> store_inv (sy_store s')"
  by (auto simp: downloadNext_start_def updateDownloadStatus_inv split: js_lookup.splits)

lemma downloadNext_start_active:
  "downloadNext_start s dl now = Some s' \<Longrightarrow> length (activeDownloads s') \<le> Suc (length (activeDownloads s))"
  using map_delete_length[of "dl_id dl" "activeDownloads s"] map_set_length[of "dl_id dl" "activeDownloads s"]
  by (auto simp: downloadNext_start_def split: js_lookup.splits)

lemma downloadNext_start_scan:
  "downloadNext_start s dl now = Some s' \<Longrightarrow> passes s' = passes s \<and> isChecking s' = isChecking s"
  by (auto simp: downloadNext_start_def split: js_lookup.splits)

lemma processQueue_store:
  "processQueue cfg s now = Some s' \<Longrightarrow> store_inv (sy_store s) \<Longrightarrow> store_inv (sy_store s')"
  by (auto simp: processQueue_def dest: downloadNext_start_store split: if_splits list.splits)

lemma processQueue_active:
  "processQueue cfg s now = Some s' \<Longrightarrow> active_bound cfg s \<Longrightarrow> active_bound cfg s'"
  by (auto simp: processQueue_def active_bound_def dest!: downloadNext_start_active split: if_splits list.splits)

lemma processQueue_scan:
  "processQueue cfg s now = Some s' \<Longrightarrow> passes s' = passes s \<and> isChecking s' = isChecking s"
  by (auto simp: processQueue_def dest: downloadNext_start_scan split: if_splits list.splits)

lemma boot_store:
  assumes "boot cfg disk backups now = Some s'"
    and "disk = None \<or> disk = Some Unparseable \<or> (\<exists>d. disk = Some (Doc d) \<and> data_inv d)"
  shows "store_inv (sy_store s')"
  using assms(1) init_inv[OF assms(2), of backups]
  by (auto simp: boot_def queue_start_def dest: processQueue_store)

lemma boot_active: "boot cfg disk backups now = Some s' \<Longrightarrow> active_bound cfg s'"
  by (auto simp: boot_def queue_start_def active_bound_def dest: processQueue_active)

lemma boot_scan: "boot cfg disk backups now = Some s' \<Longrightarrow> scan_inv s'"
  by (auto simp: boot_def queue_start_def scan_inv_def dest: processQueue_scan)

lemma channelChecked_store:
  "store_inv (sy_store s) \<Longrightarrow> store_inv (sy_store (channelChecked cfg s j env))"
  using check_one_inv
  by (auto simp: channelChecked_def Let_def split: list.splits)

lemma channelChecked_scan: "scan_inv s \<Longrightarrow> scan_inv (channelChecked cfg s j env)"
  by (auto simp: channelChecked_def Let_def scan_inv_def drop_nth_def split: list.splits)

lemma checkAllChannelsNow_scan: "scan_inv s \<Longrightarrow> scan_inv (checkAllChannelsNow s)"
  by (auto simp: checkAllChannelsNow_def Let_def scan_inv_def)

lemma procClosed_store:
  "store_inv (sy_store s) \<Longrightarrow> store_inv (sy_store (procClosed cfg s i r now))"
  by (auto simp: procClosed_def downloadNext_finish_def Let_def updateDownloadStatus_inv handleFailure_inv
      split: exit_result.splits)

lemma procClosed_active: "active_bound cfg s \<Longrightarrow> active_bound cfg (procClosed cfg s i r now)"
  using map_delete_length[of "pr_id (procs s ! i)" "activeDownloads s"]
  by (auto simp: procClosed_def downloadNext_finish_def Let_def active_bound_def)

lemma cleanupOne_store: "store_inv (sy_store s) \<Longrightarrow> store_inv (sy_store (cleanupOne s did now))"
  by (simp add: cleanupOne_def updateDownloadStatus_inv)

lemma step_store:
  "step cfg s e = Some s' \<Longrightarrow> store_inv (sy_store s) \<Longrightarrow> store_inv (sy_store s')"
proof (cases e)
  case (Restart now)
  assume a: "step cfg s e = Some s'" and i: "store_inv (sy_store s)"
  from i have "\<exists>d. st_disk (sy_store s) = Some (Doc d) \<and> data_inv d"
    by (simp add: store_inv_def)
  with a Restart show ?thesis by (auto intro: boot_store)
qed (auto simp: addChannel_inv toggleChannel_inv removeChannel_inv checkAllChannelsNow_def Let_def
       channelChecked_store procClosed_store retryRoute_def retryFailedDownload_inv cleanupOne_store
       queue_stop_def save_inv dest: processQueue_store)

lemma step_active:
  "step cfg s e = Some s' \<Longrightarrow> active_bound cfg s \<Longrightarrow> active_bound cfg s'"
proof (cases e)
  case (ProcessQueue now)
  then show "step cfg s e = Some s' \<Longrightarrow> active_bound cfg s \<Longrightarrow> ?thesis"
    by (auto dest: processQueue_active)
next
  case (ProcClosed i r now)
  then show "step cfg s e = Some s' \<Longrightarrow> active_bound cfg s \<Longrightarrow> ?thesis"
    by (auto simp: procClosed_active)
next
  case (Restart now)
  then show "step cfg s e = Some s' \<Longrightarrow> active_bound cfg s \<Longrightarrow> ?thesis"
    by (auto dest: boot_active)
qed (auto simp: active_bound_def checkAllChannelsNow_def channelChecked_def Let_def retryRoute_def
       cleanupOne_def queue_stop_def split: list.splits)

lemma step_scan:
  "step cfg s e = Some s' \<Longrightarrow> scan_inv s \<Longrightarrow> scan_inv s'"
proof (cases e)
  case CheckNow
  then show "step cfg s e = Some s' \<Longrightarrow> scan_inv s \<Longrightarrow> ?thesis"
    by (auto simp: checkAllChannelsNow_scan)
next
  case (ChannelChecked j env)
  then show "step cfg s e = Some s' \<Longrightarrow> scan_inv s \<Longrightarrow> ?thesis"
    by (auto simp: channelChecked_scan)
next
  case (ProcessQueue now)
  then show "step cfg s e = Some s' \<Longrightarrow> scan_inv s \<Longrightarrow> ?thesis"
    by (auto simp: scan_inv_def dest!: processQueue_scan)
next
  case (Restart now)
  then show "step cfg s e = Some s' \<Longrightarrow> scan_inv s \<Longrightarrow> ?thesis"
    by (auto dest: boot_scan)
qed (auto simp: scan_inv_def procClosed_def downloadNext_finish_def Let_def retryRoute_def
       cleanupOne_def queue_stop_def split: if_splits)

lemma reachable_store_inv: "reachable cfg s \<Longrightarrow> store_inv (sy_store s)"
  by (induction rule: reachable.induct) (auto intro: boot_store step_store)

lemma reachable_active_bound: "reachable cfg s \<Longrightarrow> active_bound cfg s"
  by (induction rule: reachable.induct) (auto intro: boot_active step_active)

lemma reachable_scan_inv: "reachable cfg s \<Longrightarrow> scan_inv s"
  by (induction rule: reachable.induct) (auto intro: boot_scan step_scan)

text \<open>
  Every event is defined in every reachable state: the queue never picks a task whose
  video is found only through \<open>Object.prototype\<close>, because every task is for a
  stored video.
\<close>

lemma processQueue_defined:
  assumes "store_inv (sy_store s)"
  shows "\<exists>s'. processQueue cfg s now = Some s'"
proof (cases "getPendingDownloads (sy_store s) 1")
  case Nil
  then show ?thesis by (simp add: processQueue_def)
next
  case (Cons dl rest)
  then have "dl \<in> set (getPendingDownloads (sy_store s) 1)" by simp
  then have "dl \<in> set (downloads (st_data (sy_store s)))"
    by (auto simp: getPendingDownloads_def dest: in_set_takeD)
  with assms have "dl_videoId dl \<in> fst ` set (videos (st_data (sy_store s)))"
    by (auto simp: store_inv_def data_inv_def)
  then have "map_of (videos (st_data (sy_store s))) (dl_videoId dl) \<noteq> None"
    by (simp add: map_of_eq_None_iff)
  then obtain v where "getVideo (sy_store s) (dl_videoId dl) = Own v"
    by (auto simp: getVideo_def videos_lookup_def)
  then have "\<exists>s'. downloadNext_start s dl now = Some s'"
    by (simp add: downloadNext_start_def)
  with Cons show ?thesis by (simp add: processQueue_def)
qed

lemma boot_defined:
  assumes "disk = None \<or> disk = Some Unparseable \<or> (\<exists>d. disk = Some (Doc d) \<and> data_inv d)"
  shows "\<exists>s'. boot cfg disk backups now = Some s'"
  using init_inv[OF assms, of backups]
  by (simp add: boot_def queue_start_def processQueue_defined)

lemma reachable_step_defined:
  assumes "reachable cfg s"
  shows "\<exists>s'. step cfg s e = Some s'"
proof -
  have i: "store_inv (sy_store s)" using assms by (rule reachable_store_inv)
  show ?thesis
  proof (cases e)
    case (ProcessQueue now)
    with i show ?thesis by (simp add: processQueue_defined)
  next
    case (Restart now)
    from i have "\<exists>d. st_disk (sy_store s) = Some (Doc d) \<and> data_inv d"
      by (simp add: store_inv_def)
    with Restart show ?thesis by (simp add: boot_defined)
  qed simp_all
qed

lemma run_reachable: "reachable cfg s \<Longrightarrow> run cfg s es = Some s' \<Longrightarrow> reachable cfg s'"
  by (induction es arbitrary: s) (auto intro: reachable.event split: option.splits)


section \<open>Properties of a scan pass\<close>

lemma videoExists_cong:
  "videos (st_data s') = videos (st_data s) \<Longrightarrow> videoExists s' k = videoExists s k"
  by (simp add: videoExists_def videos_lookup_def)

lemma videoExists_iff:
  "videoExists s k = (map_of (videos (st_data s)) k \<noteq> None \<or> k \<in> set object_prototype_keys)"
  by (simp add: videoExists_def videos_lookup_def split: option.splits)

lemma addVideo_videos:
  "videos (st_data (snd (addVideo s cid vd now))) = videos (st_data s)
   \<or> (\<not> videoExists s (vd_id vd)
       \<and> (\<exists>x. videos (st_data (snd (addVideo s cid vd now))) = videos (st_data s) @ [(vd_id vd, x)]))"
  by (simp add: addVideo_def Let_def save_def videoExists_def)

lemma addVideo_exists: "videoExists (snd (addVideo s cid vd now)) (vd_id vd)"
proof (cases "videoExists s (vd_id vd)")
  case True
  then show ?thesis by (simp add: addVideo_def videoExists_def)
next
  case False
  then have "videos_lookup s (vd_id vd) = Undefined" by (simp add: videoExists_def)
  then show ?thesis by (simp add: addVideo_def Let_def save_def videoExists_iff)
qed

lemma addVideo_exists_mono: "videoExists s k \<Longrightarrow> videoExists (snd (addVideo s cid vd now)) k"
  using addVideo_videos[of s cid vd now] by (auto simp: videoExists_iff)

lemma addVideo_exists_new:
  "videoExists (snd (addVideo s cid vd now)) k \<Longrightarrow> videoExists s k \<or> k = vd_id vd"
  using addVideo_videos[of s cid vd now] by (auto simp: videoExists_iff split: if_splits)

lemma createDownload_videos:
  "videos (st_data (snd (createDownload s vid q stamp rnd))) = videos (st_data s)"
  by (simp add: createDownload_def Let_def save_def split: option.splits)

lemma updateChannelLastCheck_videos:
  "videos (st_data (updateChannelLastCheck s cid now)) = videos (st_data s)"
  by (simp add: updateChannelLastCheck_def Let_def save_def split: option.splits)

lemma updateChannelLastCheck_downloads:
  "downloads (st_data (updateChannelLastCheck s cid now)) = downloads (st_data s)"
  by (simp add: updateChannelLastCheck_def Let_def save_def split: option.splits)

lemma createDownload_queued_mono:
  "list_ex (in_queue k) (downloads (st_data s)) \<Longrightarrow>
   list_ex (in_queue k) (downloads (st_data (snd (createDownload s vid q stamp rnd))))"
  using createDownload_downloads_grow[of s vid q stamp rnd] by (auto simp: list_ex_iff)

lemma add_new_videos_Cons:
  "add_new_videos cfg s cid (v # vs) env = add_new_videos cfg (add_one cfg cid v (env 0) s) cid vs (\<lambda>i. env (Suc i))"
  by (simp add: add_one_def Let_def)

lemma add_one_exists: "videoExists (add_one cfg cid v e s) (vd_id v)"
  by (simp add: add_one_def enqueue_def videoExists_cong[OF createDownload_videos] addVideo_exists)

lemma add_one_exists_mono: "videoExists s k \<Longrightarrow> videoExists (add_one cfg cid v e s) k"
  by (simp add: add_one_def enqueue_def videoExists_cong[OF createDownload_videos] addVideo_exists_mono)

lemma add_one_exists_new: "videoExists (add_one cfg cid v e s) k \<Longrightarrow> videoExists s k \<or> k = vd_id v"
  by (simp add: add_one_def enqueue_def videoExists_cong[OF createDownload_videos] addVideo_exists_new)

lemma add_one_queued: "list_ex (in_queue (vd_id v)) (downloads (st_data (add_one cfg cid v e s)))"
  by (simp add: add_one_def enqueue_def createDownload_queued)

lemma add_one_queued_mono:
  "list_ex (in_queue k) (downloads (st_data s)) \<Longrightarrow> list_ex (in_queue k) (downloads (st_data (add_one cfg cid v e s)))"
  by (simp add: add_one_def enqueue_def createDownload_queued_mono addVideo_downloads)

lemma grows_refl: "grows s s"
  by (simp add: grows_def)

lemma grows_trans: "grows a b \<Longrightarrow> grows b c \<Longrightarrow> grows a c"
  unfolding grows_def by metis

lemma grows_add_one: "grows s (add_one cfg cid v e s)"
  unfolding grows_def
  using add_one_exists_mono add_one_exists_new add_one_queued add_one_queued_mono by metis

lemma grows_add_new_videos: "grows s (add_new_videos cfg s cid vs env)"
proof (induction vs arbitrary: s env)
  case Nil
  show ?case by (simp add: grows_refl)
next
  case (Cons v vs)
  show ?case
    unfolding add_new_videos_Cons
    by (rule grows_trans[OF grows_add_one Cons.IH])
qed

lemma add_new_videos_exists:
  "v \<in> set vs \<Longrightarrow> videoExists (add_new_videos cfg s cid vs env) (vd_id v)"
proof (induction vs arbitrary: s env)
  case Nil
  then show ?case by simp
next
  case (Cons x vs)
  show ?case
  proof (cases "v = x")
    case True
    have "videoExists (add_one cfg cid x (env 0) s) (vd_id v)"
      using True by (simp add: add_one_exists)
    with grows_add_new_videos[of "add_one cfg cid x (env 0) s" cfg cid vs "\<lambda>i. env (Suc i)"]
    show ?thesis unfolding add_new_videos_Cons by (simp add: grows_def)
  next
    case False
    with Cons.prems have "v \<in> set vs" by simp
    from Cons.IH[OF this] show ?thesis unfolding add_new_videos_Cons .
  qed
qed

lemma grows_updateChannelLastCheck: "grows s (updateChannelLastCheck s cid now)"
  by (simp add: grows_def videoExists_cong[OF updateChannelLastCheck_videos] updateChannelLastCheck_downloads)

lemma grows_checkChannel: "grows s (snd (checkChannel cfg s ch env))"
proof (cases "ce_result env")
  case (Inl e)
  then show ?thesis by (simp add: checkChannel_def grows_refl)
next
  case (Inr fetched)
  then show ?thesis
    by (auto simp: checkChannel_def Let_def
          intro: grows_updateChannelLastCheck grows_trans[OF grows_add_new_videos grows_updateChannelLastCheck])
qed

lemma checkChannel_exists:
  assumes "ce_result env = Inr fetched" and "v \<in> set fetched"
  shows "videoExists (snd (checkChannel cfg s ch env)) (vd_id v)"
proof (cases "videoExists s (vd_id v)")
  case True
  with grows_checkChannel[of s cfg ch env] show ?thesis by (simp add: grows_def)
next
  case False
  let ?new = "filter (\<lambda>x. \<not> videoExists s (vd_id x)) fetched"
  from False assms(2) have in_new: "v \<in> set ?new" by simp
  then have ne: "?new \<noteq> []" by (auto simp: filter_empty_conv)
  have "videoExists (add_new_videos cfg s (ch_id ch) ?new (ce_samples env)) (vd_id v)"
    using in_new by (rule add_new_videos_exists)
  with grows_updateChannelLastCheck
  have "videoExists (updateChannelLastCheck (add_new_videos cfg s (ch_id ch) ?new (ce_samples env))
          (ch_id ch) (ce_checkedAt env)) (vd_id v)"
    by (simp add: grows_def)
  with assms(1) ne show ?thesis by (simp add: checkChannel_def Let_def)
qed

lemma check_one_fst: "fst (check_one cfg ch env acc) = snd (checkChannel cfg (fst acc) ch env)"
  by (simp add: check_one_def split: prod.splits sum.splits)

lemma check_one_errors:
  "errors (snd (check_one cfg ch env acc)) = errors (snd acc) + (if isl (ce_result env) then 1 else 0)"
  by (auto simp: check_one_def checkChannel_def Let_def split: prod.splits sum.splits)

lemma grows_check_channels: "grows (fst acc) (fst (check_channels cfg chs envs acc))"
proof (induction chs arbitrary: acc envs)
  case Nil
  show ?case by (simp add: grows_refl)
next
  case (Cons ch chs)
  have "grows (fst acc) (fst (check_one cfg ch (envs 0) acc))"
    by (simp add: check_one_fst grows_checkChannel)
  from grows_trans[OF this Cons.IH] show ?case by simp
qed

lemma check_channels_exists:
  "i < length chs \<Longrightarrow> ce_result (envs i) = Inr fetched \<Longrightarrow> v \<in> set fetched \<Longrightarrow>
   videoExists (fst (check_channels cfg chs envs acc)) (vd_id v)"
proof (induction chs arbitrary: acc envs i)
  case Nil
  then show ?case by simp
next
  case (Cons ch chs)
  show ?case
  proof (cases i)
    case 0
    with Cons.prems have "videoExists (fst (check_one cfg ch (envs 0) acc)) (vd_id v)"
      by (simp add: check_one_fst checkChannel_exists)
    with grows_check_channels[of "check_one cfg ch (envs 0) acc" cfg chs "\<lambda>i. envs (Suc i)"]
    show ?thesis by (simp add: grows_def)
  next
    case (Suc j)
    with Cons.prems have "j < length chs" "ce_result (envs (Suc j)) = Inr fetched" by simp_all
    from Cons.IH[OF this(1), of "\<lambda>i. envs (Suc i)", OF this(2) Cons.prems(3)]
    show ?thesis by simp
  qed
qed

lemma upt_0_Suc: "[0..<Suc n] = 0 # map Suc [0..<n]"
  by (simp add: upt_conv_Cons map_Suc_upt del: upt_Suc)

lemma check_channels_errors:
  "errors (snd (check_channels cfg chs envs acc))
     = errors (snd acc) + length (filter (\<lambda>i. isl (ce_result (envs i))) [0..<length chs])"
proof (induction chs arbitrary: acc envs)
  case Nil
  show ?case by simp
next
  case (Cons ch chs)
  have "length (filter (\<lambda>i. isl (ce_result (envs i))) [0..<length (ch # chs)])
      = (if isl (ce_result (envs 0)) then 1 else 0)
        + length (filter (\<lambda>i. isl (ce_result (envs (Suc i)))) [0..<length chs])"
    by (simp add: upt_0_Suc filter_map comp_def del: upt_Suc)
  with Cons.IH[of "\<lambda>i. envs (Suc i)" "check_one cfg ch (envs 0) acc"] show ?case
    by (simp add: check_one_errors del: upt_Suc)
qed

text \<open>
  Claim C8 (a failing source is isolated). In a scan pass over the enabled channels,
  the error counter at the end is the number of channels whose listing was rejected,
  and for every channel whose listing came back, every listed video that did not exist
  when the pass started is stored at the end and has a task in state \<open>'pending'\<close> or
  \<open>'downloading'\<close>: a rejection at one channel does not stop the loop.
\<close>

theorem scan_isolates_failures:
  assumes "i < length (getChannels s True)" and "ce_result (envs i) = Inr fetched"
    and "v \<in> set fetched" and "\<not> videoExists s (vd_id v)"
  shows "errors (snd (scan_pass cfg s envs))
           = length (filter (\<lambda>j. isl (ce_result (envs j))) [0..<length (getChannels s True)])
       \<and> map_of (videos (st_data (fst (scan_pass cfg s envs)))) (vd_id v) \<noteq> None
       \<and> list_ex (in_queue (vd_id v)) (downloads (st_data (fst (scan_pass cfg s envs))))"
proof -
  let ?acc = "(s, stats0 (length (getChannels s True)))"
  let ?s' = "fst (check_channels cfg (getChannels s True) envs ?acc)"
  have e: "errors (snd (check_channels cfg (getChannels s True) envs ?acc))
           = length (filter (\<lambda>j. isl (ce_result (envs j))) [0..<length (getChannels s True)])"
    by (simp add: check_channels_errors stats0_def)
  have ex: "videoExists ?s' (vd_id v)"
    using assms(1-3) by (rule check_channels_exists)
  have g: "grows s ?s'"
    using grows_check_channels[of ?acc cfg "getChannels s True" envs] by simp
  from g ex assms(4) have q: "list_ex (in_queue (vd_id v)) (downloads (st_data ?s'))"
    by (simp add: grows_def)
  from assms(4) have "vd_id v \<notin> set object_prototype_keys"
    by (auto simp: videoExists_def videos_lookup_def split: option.splits if_splits)
  with ex have "map_of (videos (st_data ?s')) (vd_id v) \<noteq> None"
    by (auto simp: videoExists_def videos_lookup_def split: option.splits if_splits)
  with e q show ?thesis by (simp add: scan_pass_def Let_def)
qed

text \<open>Two enabled channels: the listing of the first is rejected, the second lists
  the new video \<open>b\<close>.\<close>

theorem scan_isolates_failures_witness:
  "getChannels two_channels True = [channel_one, channel_two]
   \<and> isl (ce_result (first_fails 0))
   \<and> ce_result (first_fails 1) = Inr [listed ''b'']
   \<and> \<not> videoExists two_channels ''b''
   \<and> errors (snd (scan_pass cfg_two two_channels first_fails)) = 1
   \<and> map_of (videos (st_data (fst (scan_pass cfg_two two_channels first_fails)))) ''b'' \<noteq> None
   \<and> list_ex (in_queue ''b'') (downloads (st_data (fst (scan_pass cfg_two two_channels first_fails))))"
proof -
  have c: "getChannels two_channels True = [channel_one, channel_two]"
    by (simp add: getChannels_def two_channels_def save_def channel_one_def channel_two_def)
  have h1: "1 < length (getChannels two_channels True)" by (simp add: c)
  have h2: "ce_result (first_fails 1) = Inr [listed ''b'']"
    by (simp add: first_fails_def listing_def)
  have h3: "listed ''b'' \<in> set [listed ''b'']" by simp
  have id: "vd_id (listed ''b'') = ''b''" by (simp add: listed_def)
  have h4: "\<not> videoExists two_channels (vd_id (listed ''b''))"
    by (simp add: id videoExists_iff two_channels_def save_def object_prototype_keys_def)
  have f: "isl (ce_result (first_fails 0))"
    by (simp add: first_fails_def listing_fails_def)
  have n: "length (filter (\<lambda>j. isl (ce_result (first_fails j))) [0..<length (getChannels two_channels True)]) = 1"
    by (simp add: c first_fails_def listing_fails_def listing_def upt_rec)
  from scan_isolates_failures [where i = 1 and s = two_channels and envs = first_fails
      and fetched = "[listed ''b'']" and v = "listed ''b''" and cfg = cfg_two, OF h1 h2 h3 h4] c f h2 h4 n
  show ?thesis
    by (simp add: id)
qed

section \<open>Round trip and discovery\<close>

lemma init_save_data:
  "st_data (init (save s)) =
     (st_data s)\<lparr>downloads := map reset_download (downloads (st_data s)),
                 videos := map migrate_video (videos (st_data s))\<rparr>"
  by (simp add: init_def save_def init_normalise_data)

text \<open>
  Claim C4 says that \<open>save\<close> followed by \<open>init\<close> gives back every task with its
  state. A store with a task in state \<open>'downloading'\<close> is a counterexample: after
  \<open>save\<close> and \<open>init\<close> the task is \<open>'pending'\<close>.
\<close>

theorem save_init_roundtrip_counterexample:
  "map dl_status (downloads (st_data busy_store)) = [Downloading]
   \<and> map dl_status (downloads (st_data (init (save busy_store)))) = [Pending]"
  by (simp add: init_save_data busy_store_def crashed_doc_def reset_download_def pending_a_def)

text \<open>
  Claim C4 (round trip), amended. For every store, \<open>save\<close> followed by \<open>init\<close> gives
  back the channels as they were, the videos as they were except that a video whose
  \<open>id\<close> is missing or empty gets its key as id, and the tasks as they were except
  that a task in state \<open>'downloading'\<close> comes back \<open>'pending'\<close>. A store with no
  \<open>'downloading'\<close> task and no video without id comes back identical.
\<close>

theorem save_init_roundtrip:
  "st_data (init (save s)) =
     (st_data s)\<lparr>downloads := map reset_download (downloads (st_data s)),
                 videos := map migrate_video (videos (st_data s))\<rparr>
   \<and> channels (st_data (init (save s))) = channels (st_data s)
   \<and> (list_all (\<lambda>dl. dl_status dl \<noteq> Downloading) (downloads (st_data s))
        \<and> list_all (\<lambda>kv. truthy (v_id (snd kv))) (videos (st_data s))
      \<longrightarrow> st_data (init (save s)) = st_data s)"
proof -
  have a: "list_all (\<lambda>dl. dl_status dl \<noteq> Downloading) ds \<Longrightarrow> map reset_download ds = ds" for ds
    by (rule map_reset_id) (simp add: list_all_iff filter_empty_conv)
  have b: "list_all (\<lambda>kv. truthy (v_id (snd kv))) vs \<Longrightarrow> map migrate_video vs = vs" for vs
    by (rule map_migrate_id) (simp add: list_all_iff list_ex_iff)
  show ?thesis
    by (simp add: init_save_data a b)
qed

text \<open>A store whose only task is pending comes back identical.\<close>

theorem save_init_roundtrip_witness:
  "list_all (\<lambda>dl. dl_status dl \<noteq> Downloading) (downloads (st_data store_one))
   \<and> list_all (\<lambda>kv. truthy (v_id (snd kv))) (videos (st_data store_one))
   \<and> st_data (init (save store_one)) = st_data store_one
   \<and> downloads (st_data store_one) = [pending_a]"
proof -
  have h: "list_all (\<lambda>dl. dl_status dl \<noteq> Downloading) (downloads (st_data store_one))
        \<and> list_all (\<lambda>kv. truthy (v_id (snd kv))) (videos (st_data store_one))"
    by (simp add: store_one_def save_def pending_a_def video_a_def truthy_def)
  with save_init_roundtrip [of store_one]
  have "st_data (init (save store_one)) = st_data store_one" by blast
  moreover have "downloads (st_data store_one) = [pending_a]"
    by (simp add: store_one_def save_def)
  ultimately show ?thesis using h by blast
qed

lemma addVideo_known:
  "map_of (videos (st_data s)) (vd_id vd) = Some v \<Longrightarrow> addVideo s cid vd now = (False, s)"
  by (simp add: addVideo_def videos_lookup_def)

lemma addVideo_videos_other:
  "vd_id vd \<noteq> k \<Longrightarrow>
   filter (\<lambda>kv. fst kv = k) (videos (st_data (snd (addVideo s cid vd now))))
     = filter (\<lambda>kv. fst kv = k) (videos (st_data s))"
  by (simp add: addVideo_def Let_def save_def)

lemma addVideo_map_of_known:
  "map_of (videos (st_data s)) k = Some v \<Longrightarrow>
   map_of (videos (st_data (snd (addVideo s cid vd now)))) k = Some v"
  by (simp add: addVideo_def Let_def save_def map_add_Some_iff)

lemma createDownload_downloads_other:
  "vid \<noteq> k \<Longrightarrow>
   filter (\<lambda>dl. dl_videoId dl = k) (downloads (st_data (snd (createDownload s vid q stamp rnd))))
     = filter (\<lambda>dl. dl_videoId dl = k) (downloads (st_data s))"
  by (simp add: createDownload_def Let_def save_def split: option.splits)

lemma same_for_refl: "same_for k s s"
  by (simp add: same_for_def)

lemma same_for_trans: "same_for k a b \<Longrightarrow> same_for k b c \<Longrightarrow> same_for k a c"
  by (simp add: same_for_def)

lemma add_one_other:
  "map_of (videos (st_data s)) k = Some v \<Longrightarrow> vd_id x \<noteq> k \<Longrightarrow> same_for k s (add_one cfg cid x e s)"
  by (simp add: same_for_def add_one_def enqueue_def createDownload_videos createDownload_downloads_other
        addVideo_videos_other addVideo_downloads addVideo_map_of_known)

lemma add_new_videos_other:
  "map_of (videos (st_data s)) k = Some v \<Longrightarrow> \<forall>x\<in>set vs. vd_id x \<noteq> k \<Longrightarrow>
   same_for k s (add_new_videos cfg s cid vs env)"
proof (induction vs arbitrary: s env)
  case Nil
  show ?case by (simp add: same_for_refl)
next
  case (Cons x vs)
  let ?s1 = "add_one cfg cid x (env 0) s"
  from Cons.prems have step: "same_for k s ?s1" by (simp add: add_one_other)
  with Cons.prems(1) have "map_of (videos (st_data ?s1)) k = Some v" by (simp add: same_for_def)
  from Cons.IH[OF this] Cons.prems(2)
  have "same_for k ?s1 (add_new_videos cfg ?s1 cid vs (\<lambda>i. env (Suc i)))" by simp
  with step show ?case unfolding add_new_videos_Cons by (rule same_for_trans)
qed

lemma checkChannel_known:
  assumes "map_of (videos (st_data s)) k = Some v"
  shows "same_for k s (snd (checkChannel cfg s ch env))"
proof (cases "ce_result env")
  case (Inl e)
  then show ?thesis by (simp add: checkChannel_def same_for_refl)
next
  case (Inr fetched)
  let ?new = "filter (\<lambda>x. \<not> videoExists s (vd_id x)) fetched"
  have "videoExists s k" using assms by (simp add: videoExists_iff)
  then have "\<forall>x\<in>set ?new. vd_id x \<noteq> k" by auto
  from add_new_videos_other[OF assms this]
  have "same_for k s (add_new_videos cfg s (ch_id ch) ?new (ce_samples env))" .
  then show ?thesis using Inr
    by (simp add: checkChannel_def Let_def same_for_def updateChannelLastCheck_videos
          updateChannelLastCheck_downloads)
qed

lemma check_channels_known:
  "map_of (videos (st_data (fst acc))) k = Some v \<Longrightarrow>
   same_for k (fst acc) (fst (check_channels cfg chs envs acc))"
proof (induction chs arbitrary: acc envs)
  case Nil
  show ?case by (simp add: same_for_refl)
next
  case (Cons ch chs)
  let ?acc = "check_one cfg ch (envs 0) acc"
  have s1: "same_for k (fst acc) (fst ?acc)"
    using Cons.prems by (simp add: check_one_fst checkChannel_known)
  with Cons.prems have "map_of (videos (st_data (fst ?acc))) k = Some v"
    by (simp add: same_for_def)
  from same_for_trans[OF s1 Cons.IH[OF this]] show ?case by simp
qed

text \<open>
  Claim C5 (discovery is idempotent). For a video id \<open>k\<close> that the store holds,
  \<open>addVideo\<close> with that id returns \<open>false\<close> and the store it was given; and
  \<open>checkChannel\<close>, as well as a whole scan pass over the enabled channels, leaves the
  video under \<open>k\<close>, the list of entries with key \<open>k\<close> and the list of tasks for \<open>k\<close>
  as they were, whatever the listings return: no second item and no further task.
\<close>

theorem discovery_idempotent:
  assumes "map_of (videos (st_data s)) k = Some v"
  shows "(vd_id vd = k \<longrightarrow> addVideo s cid vd now = (False, s))
       \<and> same_for k s (snd (checkChannel cfg s ch env))
       \<and> same_for k s (fst (scan_pass cfg s envs))"
proof -
  have "same_for k s (fst (scan_pass cfg s envs))"
    using check_channels_known[of "(s, stats0 (length (getChannels s True)))" k v cfg "getChannels s True" envs] assms
    by (simp add: scan_pass_def Let_def)
  with assms show ?thesis by (auto simp: addVideo_known checkChannel_known)
qed

text \<open>Video \<open>a\<close> is stored and listed again; its one task stays the only one.\<close>

theorem discovery_idempotent_witness:
  "map_of (videos (st_data store_one)) ''a'' = Some video_a
   \<and> addVideo store_one ''ch_1700000000000'' (listed ''a'') t0 = (False, store_one)
   \<and> same_for ''a'' store_one (snd (checkChannel cfg_two store_one channel_one (listing [''a''])))
   \<and> same_for ''a'' store_one (fst (scan_pass cfg_two store_one (\<lambda>i. listing [''a''])))
   \<and> map dl_videoId (downloads (st_data (fst (scan_pass cfg_two store_one (\<lambda>i. listing [''a''])))))= [''a'']"
proof -
  have h: "map_of (videos (st_data store_one)) ''a'' = Some video_a"
    by (simp add: store_one_def save_def)
  have "vd_id (listed ''a'') = ''a''" by (simp add: listed_def)
  with discovery_idempotent [OF h, of "listed ''a''" "''ch_1700000000000''" t0 cfg_two channel_one "listing [''a'']" "\<lambda>i. listing [''a'']"] h
  have "map_of (videos (st_data store_one)) ''a'' = Some video_a
   \<and> addVideo store_one ''ch_1700000000000'' (listed ''a'') t0 = (False, store_one)
   \<and> same_for ''a'' store_one (snd (checkChannel cfg_two store_one channel_one (listing [''a''])))
   \<and> same_for ''a'' store_one (fst (scan_pass cfg_two store_one (\<lambda>i. listing [''a''])))" by blast
  moreover have "map dl_videoId (downloads (st_data (fst (scan_pass cfg_two store_one (\<lambda>i. listing [''a''])))))= [''a'']"
    by code_simp
  ultimately show ?thesis by blast
qed

section \<open>Reachable states\<close>

lemma distinct_filter_le1:
  "distinct (map f xs) \<Longrightarrow> length (filter (\<lambda>x. f x = k \<and> P x) xs) \<le> 1"
proof (induction xs)
  case Nil
  show ?case by simp
next
  case (Cons x xs)
  show ?case
  proof (cases "f x = k")
    case True
    from Cons.prems have "f x \<notin> f ` set xs" by simp
    with True have "\<forall>y\<in>set xs. f y \<noteq> k" by (metis imageI)
    then have "filter (\<lambda>x. f x = k \<and> P x) xs = []" by (simp add: filter_empty_conv)
    then show ?thesis by simp
  next
    case False
    with Cons show ?thesis by simp
  qed
qed

lemma run_from_boot_reachable: "run_from_boot cfg now es = Some s \<Longrightarrow> reachable cfg s"
  by (auto simp: run_from_boot_def split: option.splits intro: run_reachable reachable.fresh)

text \<open>
  Claim C2 (exclusivity). In every state the process reaches from a fresh install, at
  most one task of any video id is in state \<open>'pending'\<close> or \<open>'downloading'\<close>; and
  \<open>createDownload\<close> for a video that has such a task returns that task's id and the
  store unchanged.
\<close>

theorem one_queued_task_per_video:
  assumes "reachable cfg s"
  shows "length (filter (in_queue vid) (downloads (st_data (sy_store s)))) \<le> 1
       \<and> (\<forall>dl. find (in_queue vid) (downloads (st_data (sy_store s))) = Some dl
              \<longrightarrow> createDownload (sy_store s) vid q stamp rnd = (dl_id dl, sy_store s))"
proof -
  from reachable_store_inv[OF assms]
  have "distinct (map dl_videoId (downloads (st_data (sy_store s))))"
    by (simp add: store_inv_def data_inv_def)
  then have "length (filter (\<lambda>dl. dl_videoId dl = vid \<and> (dl_status dl = Pending \<or> dl_status dl = Downloading))
               (downloads (st_data (sy_store s)))) \<le> 1"
    by (rule distinct_filter_le1)
  then have "length (filter (in_queue vid) (downloads (st_data (sy_store s)))) \<le> 1"
    by (simp add: in_queue_def[abs_def])
  then show ?thesis by (simp add: createDownload_def)
qed

lemma queued_sys_run: "run_from_boot cfg_two t0 queued_trace = Some queued_sys"
proof -
  have "run_from_boot cfg_two t0 queued_trace \<noteq> None" by code_simp
  then show ?thesis by (simp add: queued_sys_def)
qed

text \<open>After a scan that found \<open>a\<close>, \<open>b\<close> and \<open>c\<close>, enqueueing \<open>a\<close> again returns
  the id of its pending task.\<close>

theorem one_queued_task_per_video_witness:
  "reachable cfg_two queued_sys
   \<and> map dl_videoId (filter (in_queue ''a'') (downloads (st_data (sy_store queued_sys)))) = [''a'']
   \<and> length (filter (in_queue ''a'') (downloads (st_data (sy_store queued_sys)))) \<le> 1
   \<and> createDownload (sy_store queued_sys) ''a'' ''1080p'' ''1700000000999'' ''zzzzzzzzz''
        = (''dl_1700000000000_x'', sy_store queued_sys)"
proof -
  have r: "reachable cfg_two queued_sys"
    using queued_sys_run by (rule run_from_boot_reachable)
  have v: "map dl_videoId (filter (in_queue ''a'') (downloads (st_data (sy_store queued_sys)))) = [''a'']"
    by code_simp
  have "map_option dl_id (find (in_queue ''a'') (downloads (st_data (sy_store queued_sys))))
          = Some ''dl_1700000000000_x''"
    by code_simp
  then obtain dl where dl: "find (in_queue ''a'') (downloads (st_data (sy_store queued_sys))) = Some dl"
      "dl_id dl = ''dl_1700000000000_x''"
    by auto
  with one_queued_task_per_video [OF r, of "''a''" "''1080p''" "''1700000000999''" "''zzzzzzzzz''"] r v
  show ?thesis by auto
qed

text \<open>
  Claim C7 (scans never overlap). In every reachable state at most one call of
  \<open>checkAllChannelsNow\<close> is inside a pass; while one is, \<open>_isChecking\<close> is set and a
  further call returns at once with the state unchanged: it reads no channel and starts
  no pass.
\<close>

theorem scans_never_overlap:
  assumes "reachable cfg s"
  shows "length (passes s) \<le> 1
       \<and> (passes s \<noteq> [] \<longrightarrow> isChecking s \<and> checkAllChannelsNow s = s)"
  using reachable_scan_inv[OF assms]
  by (simp add: scan_inv_def checkAllChannelsNow_def)

lemma scanning_sys_run: "run_from_boot cfg_two t0 scan_trace = Some scanning_sys"
proof -
  have "run_from_boot cfg_two t0 scan_trace \<noteq> None" by code_simp
  then show ?thesis by (simp add: scanning_sys_def)
qed

text \<open>A pass is waiting for the listing of its first channel; a second trigger
  changes nothing.\<close>

theorem scans_never_overlap_witness:
  "reachable cfg_two scanning_sys
   \<and> length (passes scanning_sys) = 1
   \<and> isChecking scanning_sys
   \<and> step cfg_two scanning_sys CheckNow = Some scanning_sys"
proof -
  have r: "reachable cfg_two scanning_sys"
    using scanning_sys_run by (rule run_from_boot_reachable)
  have p: "length (passes scanning_sys) = 1" by code_simp
  then have "passes scanning_sys \<noteq> []" by auto
  with scans_never_overlap [OF r] r p show ?thesis by simp
qed

section \<open>Retries and the worker pool\<close>





lemma reachable_retry_bound:
  "reachable cfg sy \<Longrightarrow> list_all (\<lambda>dl. dl_retryCount dl \<le> 2) (downloads (st_data (sy_store sy)))"
  using reachable_store_inv[of cfg sy] by (simp add: store_inv_def data_inv_def)


















lemma handleFailure_not_pending:
  "find (\<lambda>d. dl_id d = did) (getPendingDownloads s 100) = None \<Longrightarrow> handleFailure s did vid msg now = s"
  by (simp add: handleFailure_def)

lemma handleFailure_downloading:
  assumes "list_all (\<lambda>dl. dl_id dl = did \<longrightarrow> dl_status dl = Downloading) (downloads (st_data s))"
  shows "handleFailure s did vid msg now = s"
proof -
  have "\<forall>d\<in>set (getPendingDownloads s 100). dl_id d \<noteq> did"
    using assms by (auto simp: getPendingDownloads_def list_all_iff dest!: in_set_takeD)
  then have "find (\<lambda>d. dl_id d = did) (getPendingDownloads s 100) = None"
    by (simp add: find_None_iff)
  then show ?thesis by (rule handleFailure_not_pending)
qed

text \<open>
  Claim C1 (retry bound), evaluated on the code. A fresh install registers a channel,
  the scan finds video \<open>a\<close> and enqueues it, the queue dispatches the task and
  \<open>yt-dlp\<close> exits with a nonzero code. \<open>_handleFailure\<close> looks for the task among the
  \<open>'pending'\<close> ones and does not find it, because \<open>_downloadNext\<close> has set it to
  \<open>'downloading'\<close>: the task keeps state \<open>'downloading'\<close>, \<open>retryCount\<close> 0 and no
  error message, no process runs, and nothing is pending, so the queue never runs it
  again.
\<close>

theorem failed_download_stays_downloading:
  "map_option task_view (run_from_boot cfg_two t0 fail_trace) = Some [(''a'', Downloading, 0, None)]
   \<and> map_option (\<lambda>s. getPendingDownloads (sy_store s) 100) (run_from_boot cfg_two t0 fail_trace) = Some []
   \<and> map_option procs (run_from_boot cfg_two t0 fail_trace) = Some []
   \<and> map_option activeDownloads (run_from_boot cfg_two t0 fail_trace) = Some []"
  by code_simp

text \<open>As long as the configuration stays as it is, the size of \<open>activeDownloads\<close>
  itself does not exceed the limit. (The configuration route can lower
  \<open>maxConcurrentDownloads\<close> while downloads run; \<open>reachable\<close> keeps it fixed.)\<close>

lemma reachable_pool_size: "reachable cfg s \<Longrightarrow> length (activeDownloads s) \<le> maxConcurrentDownloads cfg"
  using reachable_active_bound[of cfg s] by (simp add: active_bound_def)

text \<open>
  Claim C9 (bounded concurrency), evaluated on the code with \<open>maxConcurrentDownloads\<close>
  2. Three videos are queued and \<open>a\<close> is dispatched; the retry route is called for
  the running task of \<open>a\<close>, which makes it \<open>'pending'\<close> again, and the queue
  dispatches it a second time under the same Map key; the first process of \<open>a\<close> exits
  and its \<open>finally\<close> deletes the key; the queue then dispatches \<open>b\<close> and \<open>c\<close>. Three
  \<open>yt-dlp\<close> processes run, for three different tasks, while \<open>activeDownloads\<close> has
  size 2.
\<close>

theorem retried_task_overruns_pool:
  "maxConcurrentDownloads cfg_two = 2
   \<and> map_option (\<lambda>s. map pr_videoId (procs s)) (run_from_boot cfg_two t0 overrun_trace) = Some [''a'', ''b'', ''c'']
   \<and> map_option (\<lambda>s. length (activeDownloads s)) (run_from_boot cfg_two t0 overrun_trace) = Some 2"
  by code_simp

end
